theory Spec2Isabelle
  imports Complex_Main "HOL-Library.Sublist"
begin

section \<open>Python values used by pokercraft.py\<close>

text \<open>
  The program is Python. Its strings are modelled by \<^typ>\<open>string\<close>: an input cell is a
  list of characters with code points below 256. Exceptions are values of \<open>py_error\<close>;
  a function that can raise returns \<open>py_error + 'a\<close> with \<open>Inl\<close> for the exception.
\<close>

datatype py_error = ValueError | AttributeError | TypeError | ZeroDivisionError | OSError

subsection \<open>Characters and \<open>str.strip\<close>\<close>

text \<open>
  \<open>str.isspace\<close> on the code points below 256: TAB, LF, VT, FF, CR, the four
  separators 28 to 31, the space, NEL (133) and the no-break space (160).
\<close>

definition py_isspace :: "char \<Rightarrow> bool" where
  "py_isspace c = (of_char c \<in> {9, 10, 11, 12, 13, 28, 29, 30, 31, 32, 133, 160 :: nat})"

definition is_digit :: "char \<Rightarrow> bool" where
  "is_digit c = (48 \<le> (of_char c :: nat) \<and> (of_char c :: nat) \<le> 57)"

definition digit_val :: "char \<Rightarrow> int" where
  "digit_val c = of_char c - 48"

definition strip :: "string \<Rightarrow> string" where
  "strip s = rev (dropWhile py_isspace (rev (dropWhile py_isspace s)))"

text \<open>Decimal value of a list of digits, most significant first.\<close>

definition digits_val :: "string \<Rightarrow> int" where
  "digits_val ds = foldl (\<lambda>acc c. 10 * acc + digit_val c) 0 ds"

subsection \<open>Floats\<close>

text \<open>
  A Python \<open>float\<close> is an IEEE 754 binary64 number: a finite value, an infinity or NaN.
  \<open>Flt m e\<close> is the finite value \<open>m * 2^e\<close>, kept in lowest terms (\<open>m\<close> odd, or
  \<open>Flt 0 0\<close> for zero; the two zeros are one value here, as they are for every
  comparison the program makes).
\<close>

datatype pyfloat = Flt int int | PosInf | NegInf | NaN

text \<open>Number of binary digits of a positive integer.\<close>

function bitlen :: "int \<Rightarrow> int" where
  "bitlen n = (if n \<le> 0 then 0 else 1 + bitlen (n div 2))"
  by pat_completeness auto
termination
  by (relation "measure nat") auto

declare bitlen.simps [simp del]

function normal :: "int \<Rightarrow> int \<Rightarrow> pyfloat" where
  "normal m e =
     (if m = 0 then Flt 0 0
      else if even m then normal (m div 2) (e + 1)
      else Flt m e)"
  by pat_completeness auto
termination
  by (relation "measure (\<lambda>(m, e). nat \<bar>m\<bar>)") auto

declare normal.simps [simp del]

text \<open>
  \<open>round_ratio n d\<close> rounds the exact quotient \<open>n / d\<close> (for \<open>d > 0\<close>) to the nearest
  binary64 value: 53 significant bits, ties to the even significand, gradual underflow
  (no bit below \<open>2^-1074\<close>) and overflow to an infinity from \<open>2^1024\<close>.
  \<open>e\<close> is the exponent of the leading bit of \<open>|n| / d\<close> and \<open>ex\<close> the exponent of the
  last bit kept.
\<close>

definition round_ratio :: "int \<Rightarrow> int \<Rightarrow> pyfloat" where
  "round_ratio n d =
     (if n = 0 then Flt 0 0
      else
        let a = \<bar>n\<bar>;
            e0 = bitlen a - bitlen d;
            e = (if (if 0 \<le> e0 then d * 2 ^ nat e0 \<le> a else d \<le> a * 2 ^ nat (- e0))
                 then e0 else e0 - 1);
            ex = max (e - 52) (- 1074);
            num = (if ex < 0 then a * 2 ^ nat (- ex) else a);
            den = (if ex < 0 then d else d * 2 ^ nat ex);
            f = num div den;
            r = num mod den;
            m = (if 2 * r < den then f
                 else if den < 2 * r then f + 1
                 else if even f then f else f + 1)
        in if 1024 < bitlen m + ex then (if 0 < n then PosInf else NegInf)
           else normal (if 0 < n then m else - m) ex)"

text \<open>\<open>round_scaled n e\<close> rounds \<open>n * 2^e\<close>.\<close>

definition round_scaled :: "int \<Rightarrow> int \<Rightarrow> pyfloat" where
  "round_scaled n e = (if 0 \<le> e then round_ratio (n * 2 ^ nat e) 1 else round_ratio n (2 ^ nat (- e)))"

text \<open>The values a program can hold: the binary64 numbers.\<close>

definition is_double :: "pyfloat \<Rightarrow> bool" where
  "is_double x = (case x of Flt m e \<Rightarrow> round_scaled m e = Flt m e | _ \<Rightarrow> True)"

text \<open>The exact value of a finite float.\<close>

definition fval :: "pyfloat \<Rightarrow> rat option" where
  "fval x = (case x of
               Flt m e \<Rightarrow> Some (if 0 \<le> e then of_int (m * 2 ^ nat e) else of_int m / of_int (2 ^ nat (- e)))
             | _ \<Rightarrow> None)"

text \<open>Arithmetic: the exact result, rounded; the special values as IEEE 754 has them.\<close>

fun fneg :: "pyfloat \<Rightarrow> pyfloat" where
  "fneg (Flt m e) = Flt (- m) e"
| "fneg PosInf = NegInf"
| "fneg NegInf = PosInf"
| "fneg NaN = NaN"

fun fadd :: "pyfloat \<Rightarrow> pyfloat \<Rightarrow> pyfloat" where
  "fadd NaN _ = NaN"
| "fadd _ NaN = NaN"
| "fadd (Flt m1 e1) (Flt m2 e2) =
     (let e = min e1 e2 in round_scaled (m1 * 2 ^ nat (e1 - e) + m2 * 2 ^ nat (e2 - e)) e)"
| "fadd PosInf NegInf = NaN"
| "fadd NegInf PosInf = NaN"
| "fadd PosInf _ = PosInf"
| "fadd NegInf _ = NegInf"
| "fadd (Flt m e) PosInf = PosInf"
| "fadd (Flt m e) NegInf = NegInf"

definition fsub :: "pyfloat \<Rightarrow> pyfloat \<Rightarrow> pyfloat" where
  "fsub x y = fadd x (fneg y)"

text \<open>The sign of a float as an integer; only used on values that are not NaN.\<close>

fun fsign :: "pyfloat \<Rightarrow> int" where
  "fsign (Flt m e) = sgn m"
| "fsign PosInf = 1"
| "fsign NegInf = - 1"
| "fsign NaN = 0"

definition inf_of_sign :: "int \<Rightarrow> pyfloat" where
  "inf_of_sign s = (if s = 0 then NaN else if 0 < s then PosInf else NegInf)"

fun fmul :: "pyfloat \<Rightarrow> pyfloat \<Rightarrow> pyfloat" where
  "fmul NaN _ = NaN"
| "fmul _ NaN = NaN"
| "fmul (Flt m1 e1) (Flt m2 e2) = round_scaled (m1 * m2) (e1 + e2)"
| "fmul x y = inf_of_sign (fsign x * fsign y)"

text \<open>
  \<open>x / y\<close> on floats raises \<open>ZeroDivisionError\<close> when \<open>y\<close> is zero; a finite value
  divided by an infinity is zero.
\<close>

fun fdiv :: "pyfloat \<Rightarrow> pyfloat \<Rightarrow> py_error + pyfloat" where
  "fdiv x (Flt m2 e2) =
     (if m2 = 0 then Inl ZeroDivisionError
      else case x of
             Flt m1 e1 \<Rightarrow>
               Inr (if e2 \<le> e1 then round_ratio (sgn m2 * m1 * 2 ^ nat (e1 - e2)) \<bar>m2\<bar>
                    else round_ratio (sgn m2 * m1) (\<bar>m2\<bar> * 2 ^ nat (e2 - e1)))
           | NaN \<Rightarrow> Inr NaN
           | _ \<Rightarrow> Inr (inf_of_sign (fsign x * sgn m2)))"
| "fdiv NaN _ = Inr NaN"
| "fdiv _ NaN = Inr NaN"
| "fdiv (Flt m e) _ = Inr (Flt 0 0)"
| "fdiv _ _ = Inr NaN"

text \<open>The comparisons \<open><\<close>, \<open>>\<close> and \<open>==\<close>: false whenever an operand is NaN.\<close>

fun flt :: "pyfloat \<Rightarrow> pyfloat \<Rightarrow> bool" where
  "flt NaN _ = False"
| "flt _ NaN = False"
| "flt (Flt m1 e1) (Flt m2 e2) =
     (let e = min e1 e2 in m1 * 2 ^ nat (e1 - e) < m2 * 2 ^ nat (e2 - e))"
| "flt NegInf NegInf = False"
| "flt NegInf _ = True"
| "flt PosInf _ = False"
| "flt (Flt m e) PosInf = True"
| "flt (Flt m e) NegInf = False"

definition fgt :: "pyfloat \<Rightarrow> pyfloat \<Rightarrow> bool" where
  "fgt x y = flt y x"

definition feq :: "pyfloat \<Rightarrow> pyfloat \<Rightarrow> bool" where
  "feq x y = (x \<noteq> NaN \<and> y \<noteq> NaN \<and> \<not> flt x y \<and> \<not> flt y x)"

definition fge :: "pyfloat \<Rightarrow> pyfloat \<Rightarrow> bool" where
  "fge x y = (x \<noteq> NaN \<and> y \<noteq> NaN \<and> \<not> flt x y)"

text \<open>The floats that are not below zero: \<open>+inf\<close> and the finite ones with a mantissa from 0.\<close>

definition nonneg :: "pyfloat \<Rightarrow> bool" where
  "nonneg x \<longleftrightarrow> x = PosInf \<or> (\<exists>m e. 0 \<le> m \<and> x = Flt m e)"

text \<open>The floats above zero.\<close>

definition positive :: "pyfloat \<Rightarrow> bool" where
  "positive x \<longleftrightarrow> x = PosInf \<or> (\<exists>m e. 0 < m \<and> x = Flt m e)"

text \<open>An \<open>int\<close> operand of a float operation is converted first.\<close>

definition float_of_int :: "int \<Rightarrow> pyfloat" where
  "float_of_int n = round_ratio n 1"

text \<open>An \<open>int\<close> compared with a float is compared by its exact value.\<close>

definition fint :: "int \<Rightarrow> pyfloat" where
  "fint n = normal n 0"

subsection \<open>The constructors \<open>float(str)\<close> and \<open>int(str)\<close>\<close>

text \<open>
  Both take one optional sign and read decimal digits in which single underscores may
  stand between two digits. A string they do not accept raises \<open>ValueError\<close>.

  The whitespace they skip around the number is not that of \<open>str.strip\<close>. CPython first
  rewrites the string to ASCII, where a character below 127 stays as it is and a
  whitespace character above becomes a space, and then skips the ASCII whitespace TAB,
  LF, VT, FF, CR and space. So NEL and the no-break space are skipped, and the separators
  28 to 31 are not: \<open>float("\x1c1.5")\<close> raises \<open>ValueError\<close>.
\<close>

definition num_isspace :: "char \<Rightarrow> bool" where
  "num_isspace c = (of_char c \<in> {9, 10, 11, 12, 13, 32, 133, 160 :: nat})"

definition num_strip :: "string \<Rightarrow> string" where
  "num_strip s = rev (dropWhile num_isspace (rev (dropWhile num_isspace s)))"

definition lower :: "char \<Rightarrow> char" where
  "lower c = (if 65 \<le> (of_char c :: nat) \<and> (of_char c :: nat) \<le> 90
              then char_of (of_char c + 32 :: nat) else c)"

definition take_sign :: "string \<Rightarrow> bool \<times> string" where
  "take_sign s =
     (case s of
        [] \<Rightarrow> (False, [])
      | c # cs \<Rightarrow> if c = CHR ''-'' then (True, cs)
                 else if c = CHR ''+'' then (False, cs)
                 else (False, s))"

text \<open>The digits that follow a digit: \<open>(["_"] digit)*\<close>, and the rest of the string.\<close>

fun digit_tail :: "string \<Rightarrow> string \<times> string" where
  "digit_tail [] = ([], [])"
| "digit_tail (c # cs) =
     (if is_digit c then (let (ds, r) = digit_tail cs in (c # ds, r))
      else if c = CHR ''_'' \<and> (case cs of [] \<Rightarrow> False | d # _ \<Rightarrow> is_digit d) then digit_tail cs
      else ([], c # cs))"

definition digitpart :: "string \<Rightarrow> (string \<times> string) option" where
  "digitpart s =
     (case s of
        [] \<Rightarrow> None
      | c # cs \<Rightarrow> if is_digit c then (let (ds, r) = digit_tail cs in Some (c # ds, r)) else None)"

text \<open>
  The mantissa \<open>digitpart ["." [digitpart]] | "." digitpart\<close>: its integer digits, its
  fraction digits and the rest.
\<close>

definition mantissa :: "string \<Rightarrow> (string \<times> string \<times> string) option" where
  "mantissa s =
     (case digitpart s of
        Some (ip, r1) \<Rightarrow>
          (case r1 of
             [] \<Rightarrow> Some (ip, [], [])
           | c # r2 \<Rightarrow>
               if c = CHR ''.'' then
                 (case digitpart r2 of
                    Some (fp, r3) \<Rightarrow> Some (ip, fp, r3)
                  | None \<Rightarrow> Some (ip, [], r2))
               else Some (ip, [], r1))
      | None \<Rightarrow>
          (case s of
             [] \<Rightarrow> None
           | c # r2 \<Rightarrow>
               if c = CHR ''.'' then
                 (case digitpart r2 of
                    Some (fp, r3) \<Rightarrow> Some ([], fp, r3)
                  | None \<Rightarrow> None)
               else None))"

text \<open>The exponent \<open>[("e" | "E") [sign] digitpart]\<close>, which must end the string.\<close>

definition exponent :: "string \<Rightarrow> int option" where
  "exponent s =
     (case s of
        [] \<Rightarrow> Some 0
      | c # r \<Rightarrow>
          if lower c = CHR ''e'' then
            (let (neg, r') = take_sign r
             in case digitpart r' of
                  Some (ds, []) \<Rightarrow> Some (if neg then - digits_val ds else digits_val ds)
                | _ \<Rightarrow> None)
          else None)"

text \<open>The decimal \<open>m * 10^k\<close>, correctly rounded.\<close>

definition decimal_to_double :: "int \<Rightarrow> int \<Rightarrow> pyfloat" where
  "decimal_to_double m k = (if 0 \<le> k then round_ratio (m * 10 ^ nat k) 1 else round_ratio m (10 ^ nat (- k)))"

definition py_float :: "string \<Rightarrow> py_error + pyfloat" where
  "py_float s =
     (let (neg, r) = take_sign (num_strip s);
          w = map lower r
      in if w = ''inf'' \<or> w = ''infinity'' then Inr (if neg then NegInf else PosInf)
         else if w = ''nan'' then Inr NaN
         else
           (case mantissa r of
              None \<Rightarrow> Inl ValueError
            | Some (ip, fp, r') \<Rightarrow>
                (case exponent r' of
                   None \<Rightarrow> Inl ValueError
                 | Some ex \<Rightarrow>
                     (let x = decimal_to_double (digits_val (ip @ fp)) (ex - int (length fp))
                      in Inr (if neg then fneg x else x)))))"

definition py_int :: "string \<Rightarrow> py_error + int" where
  "py_int s =
     (let (neg, r) = take_sign (num_strip s)
      in case digitpart r of
           Some (ds, []) \<Rightarrow> Inr (if neg then - digits_val ds else digits_val ds)
         | _ \<Rightarrow> Inl ValueError)"

subsection \<open>Naive datetimes and \<open>datetime.strptime\<close>\<close>

text \<open>
  A \<open>datetime\<close> without time zone. Two of them compare by the tuple (year, month, day,
  hour, minute, second, microsecond).
\<close>

record datetime =
  year :: nat
  month :: nat
  day :: nat
  hour :: nat
  minute :: nat
  second :: nat
  microsecond :: nat

fun lex_less :: "nat list \<Rightarrow> nat list \<Rightarrow> bool" where
  "lex_less (x # xs) (y # ys) = (x < y \<or> (x = y \<and> lex_less xs ys))"
| "lex_less _ _ = False"

definition dt_key :: "datetime \<Rightarrow> nat list" where
  "dt_key d = [year d, month d, day d, hour d, minute d, second d, microsecond d]"

definition dt_less :: "datetime \<Rightarrow> datetime \<Rightarrow> bool" where
  "dt_less a b = lex_less (dt_key a) (dt_key b)"

definition dt_le :: "datetime \<Rightarrow> datetime \<Rightarrow> bool" where
  "dt_le a b = (dt_less a b \<or> dt_key a = dt_key b)"

definition is_leap :: "nat \<Rightarrow> bool" where
  "is_leap y = (y mod 4 = 0 \<and> (y mod 100 \<noteq> 0 \<or> y mod 400 = 0))"

definition days_in_month :: "nat \<Rightarrow> nat \<Rightarrow> nat" where
  "days_in_month y m =
     (if m = 2 then (if is_leap y then 29 else 28)
      else if m = 4 \<or> m = 6 \<or> m = 9 \<or> m = 11 then 30
      else 31)"

text \<open>
  \<open>strptime\<close> turns the format into a regular expression, matches it at the start of
  the data and refuses data that the match leaves unconverted. A directive stands for
  the alternatives below, tried in this order (an alternative is a sequence of character
  classes); a run of whitespace in the format stands for \<open>\s+\<close>; any other character
  stands for itself. Only the directives that pokercraft.py uses are given.
\<close>

definition in_range :: "char \<Rightarrow> char \<Rightarrow> char \<Rightarrow> bool" where
  "in_range lo hi c = ((of_char lo :: nat) \<le> of_char c \<and> (of_char c :: nat) \<le> of_char hi)"

definition is_char :: "char \<Rightarrow> char \<Rightarrow> bool" where
  "is_char a c = (c = a)"

definition directive_regex :: "char \<Rightarrow> (char \<Rightarrow> bool) list list option" where
  "directive_regex c =
     (if c = CHR ''Y'' then Some [[is_digit, is_digit, is_digit, is_digit]]
      else if c = CHR ''m'' then
        Some [[is_char CHR ''1'', in_range CHR ''0'' CHR ''2''],
              [is_char CHR ''0'', in_range CHR ''1'' CHR ''9''],
              [in_range CHR ''1'' CHR ''9'']]
      else if c = CHR ''d'' then
        Some [[is_char CHR ''3'', in_range CHR ''0'' CHR ''1''],
              [in_range CHR ''1'' CHR ''2'', is_digit],
              [is_char CHR ''0'', in_range CHR ''1'' CHR ''9''],
              [in_range CHR ''1'' CHR ''9''],
              [is_char CHR '' '', in_range CHR ''1'' CHR ''9'']]
      else if c = CHR ''H'' then
        Some [[is_char CHR ''2'', in_range CHR ''0'' CHR ''3''],
              [in_range CHR ''0'' CHR ''1'', is_digit],
              [is_digit]]
      else if c = CHR ''M'' then
        Some [[in_range CHR ''0'' CHR ''5'', is_digit],
              [is_digit]]
      else if c = CHR ''S'' then
        Some [[is_char CHR ''6'', in_range CHR ''0'' CHR ''1''],
              [in_range CHR ''0'' CHR ''5'', is_digit],
              [is_digit]]
      else None)"

datatype fmt_item = Directive char | Literal char | Whitespace

fun compile_format :: "string \<Rightarrow> fmt_item list" where
  "compile_format [] = []"
| "compile_format [c] = (if py_isspace c then [Whitespace] else [Literal c])"
| "compile_format (c # d # cs) =
     (if c = CHR ''%'' then Directive d # compile_format cs
      else if py_isspace c then
        (case compile_format (d # cs) of
           Whitespace # r \<Rightarrow> Whitespace # r
         | r \<Rightarrow> Whitespace # r)
      else Literal c # compile_format (d # cs))"

text \<open>One alternative against the start of the data: the text it matched and the rest.\<close>

fun match_alt :: "(char \<Rightarrow> bool) list \<Rightarrow> string \<Rightarrow> (string \<times> string) option" where
  "match_alt [] s = Some ([], s)"
| "match_alt (p # ps) [] = None"
| "match_alt (p # ps) (c # cs) =
     (if p c then map_option (\<lambda>(t, r). (c # t, r)) (match_alt ps cs) else None)"

text \<open>
  The match proper: the first way, in the order of the alternatives, in which the whole
  expression matches a prefix of the data. It gives the text of each directive and the
  data left over. (\<open>\s+\<close> takes the whole run of whitespace; in the formats of the
  program a directive that starts with a digit follows it, so a shorter run cannot
  match.)
\<close>

fun match_items :: "fmt_item list \<Rightarrow> string \<Rightarrow> ((char \<times> string) list \<times> string) option"
  and try_alts :: "(char \<Rightarrow> bool) list list \<Rightarrow> char \<Rightarrow> fmt_item list \<Rightarrow> string \<Rightarrow>
                   ((char \<times> string) list \<times> string) option" where
  "match_items [] s = Some ([], s)"
| "match_items (Literal c # items) s =
     (case s of
        [] \<Rightarrow> None
      | x # xs \<Rightarrow> if x = c then match_items items xs else None)"
| "match_items (Whitespace # items) s =
     (case s of
        [] \<Rightarrow> None
      | x # xs \<Rightarrow> if py_isspace x then match_items items (dropWhile py_isspace xs) else None)"
| "match_items (Directive c # items) s =
     (case directive_regex c of
        None \<Rightarrow> None
      | Some alts \<Rightarrow> try_alts alts c items s)"
| "try_alts [] c items s = None"
| "try_alts (a # alts) c items s =
     (case match_alt a s of
        None \<Rightarrow> try_alts alts c items s
      | Some (t, r) \<Rightarrow>
          (case match_items items r of
             Some (fs, r') \<Rightarrow> Some ((c, t) # fs, r')
           | None \<Rightarrow> try_alts alts c items s))"

text \<open>
  The number a directive matched (\<open>int\<close> of its text), or the default of a directive
  that the format does not have.
\<close>

definition field :: "(char \<times> string) list \<Rightarrow> char \<Rightarrow> nat \<Rightarrow> nat" where
  "field fs c dflt = (case map_of fs c of None \<Rightarrow> dflt | Some t \<Rightarrow> nat (digits_val (strip t)))"

definition strptime :: "string \<Rightarrow> string \<Rightarrow> py_error + datetime" where
  "strptime data fmt =
     (case match_items (compile_format fmt) data of
        None \<Rightarrow> Inl ValueError
      | Some (fs, rest) \<Rightarrow>
          if rest \<noteq> [] then Inl ValueError
          else
            let y = field fs CHR ''Y'' 1900;
                m = field fs CHR ''m'' 1;
                d = field fs CHR ''d'' 1;
                H = field fs CHR ''H'' 0;
                M = field fs CHR ''M'' 0;
                S = field fs CHR ''S'' 0
            in if 1 \<le> y \<and> y \<le> 9999 \<and> 1 \<le> m \<and> m \<le> 12 \<and> 1 \<le> d \<and> d \<le> days_in_month y m
                  \<and> H \<le> 23 \<and> M \<le> 59 \<and> S \<le> 59
               then Inr \<lparr>year = y, month = m, day = d, hour = H, minute = M, second = S,
                         microsecond = 0\<rparr>
               else Inl ValueError)"

section \<open>Value coercion\<close>

text \<open>
  A cell handed to the coercions is \<open>None\<close> or a string, so their argument is a
  \<^typ>\<open>string option\<close>. The bare \<open>except\<close> of the source turns every exception of the
  conversion into the default.
\<close>

text \<open>
  \<open>parse_date\<close>: the formats in their order; the loop returns at the first format that
  \<open>strptime\<close> accepts, and the bare \<open>except\<close> passes over every failure.
\<close>

definition formats :: "string list" where
  "formats =
     [''%Y-%m-%d'',
      ''%Y-%m-%d %H:%M'',
      ''%Y-%m-%d %H:%M:%S'',
      ''%d.%m.%Y'',
      ''%d.%m.%Y %H:%M'',
      ''%d.%m.%Y %H:%M:%S'']"

fun try_formats :: "string \<Rightarrow> string list \<Rightarrow> datetime option" where
  "try_formats v [] = None"
| "try_formats v (fmt # fmts) =
     (case strptime (strip v) fmt of
        Inr d \<Rightarrow> Some d
      | Inl _ \<Rightarrow> try_formats v fmts)"

definition parse_date :: "string option \<Rightarrow> datetime option" where
  "parse_date v =
     (case v of
        None \<Rightarrow> None
      | Some s \<Rightarrow> if s = [] then None else try_formats s formats)"

text \<open>\<open>value.replace(a, b)\<close> for one-character strings \<open>a\<close> and \<open>b\<close>.\<close>

definition replace_char :: "char \<Rightarrow> char \<Rightarrow> string \<Rightarrow> string" where
  "replace_char a b s = map (\<lambda>c. if c = a then b else c) s"

definition to_float :: "string option \<Rightarrow> pyfloat" where
  "to_float v =
     (case v of
        None \<Rightarrow> Flt 0 0
      | Some s \<Rightarrow>
          if s = [] then Flt 0 0
          else (case py_float (replace_char CHR '','' CHR ''.'' s) of
                  Inr x \<Rightarrow> x
                | Inl _ \<Rightarrow> Flt 0 0))"

definition to_int :: "string option \<Rightarrow> int option" where
  "to_int v =
     (case v of
        None \<Rightarrow> None
      | Some s \<Rightarrow>
          if s = [] then None
          else (case py_int s of Inr n \<Rightarrow> Some n | Inl _ \<Rightarrow> None))"

text \<open>The decimal points of a string, in the order they stand in it.\<close>

abbreviation (input) dots :: "string \<Rightarrow> string" where
  "dots s \<equiv> filter (\<lambda>c. c = CHR ''.'') s"

section \<open>Data model and record loader\<close>

text \<open>
  \<open>TournamentRecord\<close>. The field \<open>tournament\<close> holds what \<open>row.get\<close> returned, which
  is \<open>None\<close> for a row shorter than the header.
\<close>

record tournament_record =
  date :: datetime
  tournament :: "string option"
  buyin_total :: pyfloat
  rake :: pyfloat
  prize :: pyfloat
  profit :: pyfloat
  placement :: "int option"
  field_size :: "int option"
  currency :: string
  t_type :: string

text \<open>
  What \<open>csv.DictReader\<close> hands to the loader. A row is a dictionary from the column
  names to the cells; the cell of a column that the row is too short for is \<open>None\<close>
  (the reader's \<open>restval\<close>). Reading the next row can fail (\<open>ReadError\<close>). A file is
  \<open>Unreadable\<close> when opening it or reading its header raises; otherwise it has its
  \<open>fieldnames\<close>, which are \<open>None\<close> for an empty file, and its rows. The delimiter and
  the encoding only decide how the library cuts the file into these; \<open>verbose\<close> only
  prints.
\<close>

type_synonym csv_row = "string \<Rightarrow> string option option"

datatype row_event = Row csv_row | ReadError

datatype csv_source = Unreadable | Table "string list option" "row_event list"

text \<open>\<open>row.get(k)\<close>: the cell, or \<open>None\<close> for a key the row does not have.\<close>

definition row_get :: "csv_row \<Rightarrow> string \<Rightarrow> string option" where
  "row_get row k = (case row k of None \<Rightarrow> None | Some cell \<Rightarrow> cell)"

text \<open>
  \<open>row.get(k, "").strip() or dflt\<close>: the default of \<open>get\<close> only stands in for a
  missing key, so a cell that is \<open>None\<close> reaches \<open>.strip()\<close> and raises
  \<open>AttributeError\<close>.
\<close>

definition stripped_or :: "csv_row \<Rightarrow> string \<Rightarrow> string \<Rightarrow> py_error + string" where
  "stripped_or row k dflt =
     (case row k of
        None \<Rightarrow> Inr dflt
      | Some None \<Rightarrow> Inl AttributeError
      | Some (Some s) \<Rightarrow> Inr (if strip s = [] then dflt else strip s))"

text \<open>
  The body of the loop over the rows, in the order of the source: every field is
  computed before the date is looked at. \<open>Inr None\<close> is the \<open>continue\<close> of a row
  without a date, \<open>Inl\<close> an exception that leaves the body.
\<close>

definition process_row :: "csv_row \<Rightarrow> py_error + tournament_record option" where
  "process_row row =
     (let d = parse_date (row_get row ''Date'');
          buyin = to_float (row_get row ''BuyIn'');
          prize' = to_float (row_get row ''Result'');
          rake' = (if row ''Rake'' \<noteq> None then to_float (row_get row ''Rake'') else Flt 0 0);
          placement' = to_int (row_get row ''Placement'');
          field_size' = to_int (row_get row ''FieldSize'')
      in case stripped_or row ''Currency'' ''UNKNOWN'' of
           Inl e \<Rightarrow> Inl e
         | Inr currency' \<Rightarrow>
             (case stripped_or row ''Type'' ''Unknown'' of
                Inl e \<Rightarrow> Inl e
              | Inr t_type' \<Rightarrow>
                  (let profit' = fsub prize' buyin
                   in case d of
                        None \<Rightarrow> Inr None
                      | Some d' \<Rightarrow>
                          Inr (Some \<lparr>date = d',
                                     tournament = (case row ''Tournament'' of
                                                     None \<Rightarrow> Some ''Unknown''
                                                   | Some cell \<Rightarrow> cell),
                                     buyin_total = buyin,
                                     rake = rake',
                                     prize = prize',
                                     profit = profit',
                                     placement = placement',
                                     field_size = field_size',
                                     currency = currency',
                                     t_type = t_type'\<rparr>))))"

text \<open>
  The loop over the rows of one file: the records so far, extended; and the exception
  that ended the loop early, if one did.
\<close>

fun read_rows :: "row_event list \<Rightarrow> tournament_record list \<Rightarrow>
                  tournament_record list \<times> py_error option" where
  "read_rows [] records = (records, None)"
| "read_rows (ReadError # rest) records = (records, Some OSError)"
| "read_rows (Row row # rest) records =
     (case process_row row of
        Inl e \<Rightarrow> (records, Some e)
      | Inr None \<Rightarrow> read_rows rest records
      | Inr (Some r) \<Rightarrow> read_rows rest (records @ [r]))"

definition required_fields :: "string list" where
  "required_fields = [''Date'', ''Tournament'', ''BuyIn'', ''Result'']"

text \<open>
  One file: \<open>except Exception\<close> around it catches whatever was raised, and the records
  appended before stay in the list.
\<close>

definition load_file :: "csv_source \<Rightarrow> tournament_record list \<Rightarrow> tournament_record list" where
  "load_file src records =
     (case src of
        Unreadable \<Rightarrow> records
      | Table None rows \<Rightarrow> records
      | Table (Some fieldnames) rows \<Rightarrow>
          if filter (\<lambda>c. c \<notin> set fieldnames) required_fields \<noteq> [] then records
          else fst (read_rows rows records))"

fun load_files :: "csv_source list \<Rightarrow> tournament_record list \<Rightarrow> tournament_record list" where
  "load_files [] records = records"
| "load_files (src # srcs) records = load_files srcs (load_file src records)"

definition load_summaries :: "csv_source list \<Rightarrow> tournament_record list" where
  "load_summaries files = load_files files []"

text \<open>The rows that the files hold, for statements about where a record comes from.\<close>

fun source_rows :: "csv_source \<Rightarrow> csv_row list" where
  "source_rows Unreadable = []"
| "source_rows (Table fieldnames rows) =
     concat (map (\<lambda>ev. case ev of Row row \<Rightarrow> [row] | ReadError \<Rightarrow> []) rows)"

section \<open>Filter stage\<close>

text \<open>Truth value of an optional string argument: \<open>None\<close> and \<open>""\<close> are false.\<close>

definition truthy :: "string option \<Rightarrow> bool" where
  "truthy v = (case v of None \<Rightarrow> False | Some s \<Rightarrow> s \<noteq> [])"

text \<open>\<open>strptime(v, "%Y-%m-%d") if v else None\<close>; the data is not stripped here.\<close>

definition date_bound :: "string option \<Rightarrow> py_error + datetime option" where
  "date_bound v =
     (case v of
        None \<Rightarrow> Inr None
      | Some s \<Rightarrow>
          if s = [] then Inr None
          else (case strptime s ''%Y-%m-%d'' of Inl e \<Rightarrow> Inl e | Inr d \<Rightarrow> Inr (Some d)))"

fun filter_loop :: "tournament_record list \<Rightarrow> string option \<Rightarrow> datetime option \<Rightarrow>
                    datetime option \<Rightarrow> tournament_record list" where
  "filter_loop [] cur d_min d_max = []"
| "filter_loop (r # rs) cur d_min d_max =
     (if truthy cur \<and> Some (currency r) \<noteq> cur then filter_loop rs cur d_min d_max
      else if (case d_min of None \<Rightarrow> False | Some d \<Rightarrow> dt_less (date r) d)
        then filter_loop rs cur d_min d_max
      else if (case d_max of None \<Rightarrow> False | Some d \<Rightarrow> dt_less d (date r))
        then filter_loop rs cur d_min d_max
      else r # filter_loop rs cur d_min d_max)"

definition filter_records :: "tournament_record list \<Rightarrow> string option \<Rightarrow> string option \<Rightarrow>
                              string option \<Rightarrow> py_error + tournament_record list" where
  "filter_records records cur min_date max_date =
     (case date_bound min_date of
        Inl e \<Rightarrow> Inl e
      | Inr d_min \<Rightarrow>
          (case date_bound max_date of
             Inl e \<Rightarrow> Inl e
           | Inr d_max \<Rightarrow> Inr (filter_loop records cur d_min d_max)))"

section \<open>Grouping policy\<close>

text \<open>
  The four labels hold an en dash (U+2013), written here by its three UTF-8 bytes. The
  labels are only ever compared with each other.
\<close>

definition en_dash :: string where
  "en_dash = [CHR 0xE2, CHR 0x80, CHR 0x93]"

definition label_micro :: string where
  "label_micro = ''Micro (0'' @ en_dash @ ''5)''"

definition label_low :: string where
  "label_low = ''Low (5'' @ en_dash @ ''22)''"

definition label_mid :: string where
  "label_mid = ''Mid (22'' @ en_dash @ ''109)''"

definition label_high :: string where
  "label_high = ''High (109+)''"

definition get_limit_group :: "pyfloat \<Rightarrow> string" where
  "get_limit_group buyin =
     (if flt buyin (fint 5) then label_micro
      else if flt buyin (fint 22) then label_low
      else if flt buyin (fint 109) then label_mid
      else label_high)"

section \<open>Aggregation stage\<close>

text \<open>
  The builtin \<open>sum\<close> starts from the \<open>int\<close> 0, which is its result on no items. How it
  adds up floats differs between versions of CPython (from left to right up to 3.11,
  with a compensation term from 3.12 on), so the summation of a non-empty list of floats
  is the parameter \<open>fsum\<close> of the model; \<open>sum_ltr\<close> is the addition from left to right.
  An \<open>int\<close> 0 in a result is written as the float zero, to which it compares equal.
\<close>

definition py_sum :: "(pyfloat list \<Rightarrow> pyfloat) \<Rightarrow> pyfloat list \<Rightarrow> pyfloat" where
  "py_sum fsum xs = (if xs = [] then Flt 0 0 else fsum xs)"

definition sum_ltr :: "pyfloat list \<Rightarrow> pyfloat" where
  "sum_ltr xs = foldl fadd (float_of_int 0) xs"

text \<open>\<open>a / b\<close> on two \<open>int\<close>s: the quotient, correctly rounded.\<close>

definition int_truediv :: "int \<Rightarrow> int \<Rightarrow> py_error + pyfloat" where
  "int_truediv a b = (if b = 0 then Inl ZeroDivisionError else Inr (round_ratio (sgn b * a) \<bar>b\<bar>))"

text \<open>\<open>x * 100\<close> for a quotient \<open>x\<close> that may have raised.\<close>

definition times_100 :: "py_error + pyfloat \<Rightarrow> py_error + pyfloat" where
  "times_100 q = (case q of Inl e \<Rightarrow> Inl e | Inr x \<Rightarrow> Inr (fmul x (float_of_int 100)))"

record overall =
  total_tournaments :: nat
  total_buyin :: pyfloat
  total_prize :: pyfloat
  total_profit :: pyfloat
  roi_percent :: pyfloat
  itm_percent :: pyfloat
  abi :: pyfloat

definition aggregate_overall :: "(pyfloat list \<Rightarrow> pyfloat) \<Rightarrow> tournament_record list \<Rightarrow>
                                 py_error + overall" where
  "aggregate_overall fsum records =
     (let total_buyin' = py_sum fsum (map buyin_total records);
          total_prize' = py_sum fsum (map prize records);
          profit' = fsub total_prize' total_buyin';
          itm_count = length (filter (\<lambda>r. fgt (prize r) (fint 0)) records);
          total = length records
      in case (if fgt total_buyin' (fint 0) then times_100 (fdiv profit' total_buyin')
               else Inr (Flt 0 0)) of
           Inl e \<Rightarrow> Inl e
         | Inr roi \<Rightarrow>
             (case (if 0 < total then times_100 (int_truediv (int itm_count) (int total))
                    else Inr (Flt 0 0)) of
                Inl e \<Rightarrow> Inl e
              | Inr itm \<Rightarrow>
                  (case (if 0 < total then fdiv total_buyin' (float_of_int (int total))
                         else Inr (Flt 0 0)) of
                     Inl e \<Rightarrow> Inl e
                   | Inr abi' \<Rightarrow>
                       Inr \<lparr>total_tournaments = total,
                            total_buyin = total_buyin',
                            total_prize = total_prize',
                            total_profit = profit',
                            roi_percent = roi,
                            itm_percent = itm,
                            abi = abi'\<rparr>)))"

text \<open>
  The group-by functions keep a dictionary, which iterates in the order in which its
  keys were first inserted: a list of pairs with distinct keys. \<open>group_acc\<close> is a
  group while the records are added up, \<open>group_stats\<close> the finished group.
\<close>

record group_acc =
  acc_count :: nat
  acc_buyin :: pyfloat
  acc_prize :: pyfloat
  acc_profit :: pyfloat

record group_stats =
  g_count :: nat
  g_buyin :: pyfloat
  g_prize :: pyfloat
  g_profit :: pyfloat
  g_roi_percent :: pyfloat
  g_abi :: pyfloat

definition acc_zero :: group_acc where
  "acc_zero = \<lparr>acc_count = 0, acc_buyin = float_of_int 0, acc_prize = float_of_int 0,
               acc_profit = float_of_int 0\<rparr>"

definition acc_add :: "group_acc \<Rightarrow> tournament_record \<Rightarrow> group_acc" where
  "acc_add v r =
     \<lparr>acc_count = acc_count v + 1,
      acc_buyin = fadd (acc_buyin v) (buyin_total r),
      acc_prize = fadd (acc_prize v) (prize r),
      acc_profit = fadd (acc_profit v) (profit r)\<rparr>"

text \<open>\<open>if g not in groups: groups[g] = {...}\<close>: a new key goes to the end.\<close>

definition dict_setdefault :: "string \<Rightarrow> 'v \<Rightarrow> (string \<times> 'v) list \<Rightarrow> (string \<times> 'v) list" where
  "dict_setdefault k v d = (if k \<in> set (map fst d) then d else d @ [(k, v)])"

text \<open>\<open>groups[g][...] += ...\<close>: the entry of the key changes where it stands.\<close>

definition dict_modify :: "string \<Rightarrow> ('v \<Rightarrow> 'v) \<Rightarrow> (string \<times> 'v) list \<Rightarrow> (string \<times> 'v) list" where
  "dict_modify k f d = map (\<lambda>(k', v). if k' = k then (k', f v) else (k', v)) d"

fun group_loop :: "(tournament_record \<Rightarrow> string) \<Rightarrow> tournament_record list \<Rightarrow>
                   (string \<times> group_acc) list \<Rightarrow> (string \<times> group_acc) list" where
  "group_loop key [] groups = groups"
| "group_loop key (r # rs) groups =
     group_loop key rs (dict_modify (key r) (\<lambda>v. acc_add v r) (dict_setdefault (key r) acc_zero groups))"

text \<open>
  The second loop derives \<open>roi_percent\<close> and \<open>abi\<close> of each group. The two functions
  of the source differ in the test on the count: \<open>> 0\<close> by limits, its truth value by
  type.
\<close>

definition derive :: "bool \<Rightarrow> group_acc \<Rightarrow> py_error + group_stats" where
  "derive count_test v =
     (case (if fgt (acc_buyin v) (fint 0) then times_100 (fdiv (acc_profit v) (acc_buyin v))
            else Inr (Flt 0 0)) of
        Inl e \<Rightarrow> Inl e
      | Inr roi \<Rightarrow>
          (case (if count_test then fdiv (acc_buyin v) (float_of_int (int (acc_count v)))
                 else Inr (Flt 0 0)) of
             Inl e \<Rightarrow> Inl e
           | Inr abi' \<Rightarrow>
               Inr \<lparr>g_count = acc_count v, g_buyin = acc_buyin v, g_prize = acc_prize v,
                    g_profit = acc_profit v, g_roi_percent = roi, g_abi = abi'\<rparr>))"

fun derive_loop :: "(group_acc \<Rightarrow> bool) \<Rightarrow> (string \<times> group_acc) list \<Rightarrow>
                    py_error + (string \<times> group_stats) list" where
  "derive_loop test [] = Inr []"
| "derive_loop test ((g, v) # rest) =
     (case derive (test v) v of
        Inl e \<Rightarrow> Inl e
      | Inr st \<Rightarrow>
          (case derive_loop test rest of
             Inl e \<Rightarrow> Inl e
           | Inr out \<Rightarrow> Inr ((g, st) # out)))"

definition aggregate_by_limits :: "tournament_record list \<Rightarrow> py_error + (string \<times> group_stats) list" where
  "aggregate_by_limits records =
     derive_loop (\<lambda>v. 0 < acc_count v) (group_loop (\<lambda>r. get_limit_group (buyin_total r)) records [])"

definition aggregate_by_type :: "tournament_record list \<Rightarrow> py_error + (string \<times> group_stats) list" where
  "aggregate_by_type records =
     derive_loop (\<lambda>v. acc_count v \<noteq> 0) (group_loop t_type records [])"

text \<open>
  For the statements about the groups. \<open>first_seen ks\<close> lists the keys in the order in
  which each occurs first. \<open>group_summary members st\<close> says that \<open>st\<close> is the group made
  of the records \<open>members\<close>, added up in their order from 0, with the two derived
  numbers as the second loop computes them.
\<close>

fun first_seen :: "'a list \<Rightarrow> 'a list" where
  "first_seen [] = []"
| "first_seen (k # ks) = k # filter (\<lambda>x. x \<noteq> k) (first_seen ks)"

definition group_summary :: "tournament_record list \<Rightarrow> group_stats \<Rightarrow> bool" where
  "group_summary members st \<longleftrightarrow>
     g_count st = length members \<and>
     g_buyin st = sum_ltr (map buyin_total members) \<and>
     g_prize st = sum_ltr (map prize members) \<and>
     g_profit st = sum_ltr (map profit members) \<and>
     (if fgt (g_buyin st) (fint 0)
      then times_100 (fdiv (g_profit st) (g_buyin st)) = Inr (g_roi_percent st)
      else g_roi_percent st = Flt 0 0) \<and>
     (if members \<noteq> []
      then fdiv (g_buyin st) (float_of_int (int (length members))) = Inr (g_abi st)
      else g_abi st = Flt 0 0)"

section \<open>Sample data\<close>

text \<open>Records and rows for the concrete instances of the properties below.\<close>

definition at_time :: "nat \<Rightarrow> nat \<Rightarrow> nat \<Rightarrow> nat \<Rightarrow> nat \<Rightarrow> nat \<Rightarrow> datetime" where
  "at_time y m d H M S =
     \<lparr>year = y, month = m, day = d, hour = H, minute = M, second = S, microsecond = 0\<rparr>"

definition sample_record :: "datetime \<Rightarrow> string \<Rightarrow> pyfloat \<Rightarrow> pyfloat \<Rightarrow> tournament_record" where
  "sample_record d cur buyin won =
     \<lparr>date = d, tournament = Some ''Daily'', buyin_total = buyin, rake = Flt 0 0,
      prize = won, profit = fsub won buyin, placement = None, field_size = None,
      currency = cur, t_type = ''Unknown''\<rparr>"

text \<open>A row of a file with the columns Date, Tournament, BuyIn and Result.\<close>

definition sample_row :: "string \<Rightarrow> string \<Rightarrow> string \<Rightarrow> csv_row" where
  "sample_row d buyin won =
     [''Date'' \<mapsto> Some d, ''Tournament'' \<mapsto> Some ''Daily'', ''BuyIn'' \<mapsto> Some buyin,
      ''Result'' \<mapsto> Some won]"

text \<open>
  A row of a file that has a fifth column Currency; \<open>cur\<close> is \<open>None\<close> for a line with four
  cells only, which the reader fills up with \<open>None\<close>.
\<close>

definition sample_row_cur :: "string \<Rightarrow> string \<Rightarrow> string \<Rightarrow> string option \<Rightarrow> csv_row" where
  "sample_row_cur d buyin won cur = (sample_row d buyin won)(''Currency'' \<mapsto> cur)"

section \<open>Properties\<close>

subsection \<open>Comparison of floats\<close>

lemma pow_align:
  fixes e e1 :: int
  assumes "e \<le> e1"
  shows "(of_int (m * 2 ^ nat (e1 - e)) :: rat) = of_int m * 2 powi e1 / 2 powi e"
proof -
  have "(2::rat) powi e1 = 2 powi (e1 - e) * 2 powi e"
    by (simp add: power_int_add[symmetric])
  moreover have "(2::rat) powi (e1 - e) = 2 ^ nat (e1 - e)"
    using assms by (simp add: power_int_def)
  ultimately show ?thesis by simp
qed

text \<open>\<open>flt\<close> on finite floats is the order of their exact values.\<close>

lemma flt_Flt_iff:
  "flt (Flt m1 e1) (Flt m2 e2) \<longleftrightarrow> (of_int m1 * 2 powi e1 :: rat) < of_int m2 * 2 powi e2"
proof -
  define e where "e = min e1 e2"
  have le: "e \<le> e1" "e \<le> e2" by (simp_all add: e_def)
  have neg: "((2::rat) powi e < 0) = False" by (simp add: not_less)
  have "flt (Flt m1 e1) (Flt m2 e2) \<longleftrightarrow> m1 * 2 ^ nat (e1 - e) < m2 * 2 ^ nat (e2 - e)"
    by (simp add: e_def Let_def)
  also have "\<dots> \<longleftrightarrow> (of_int (m1 * 2 ^ nat (e1 - e)) :: rat) < of_int (m2 * 2 ^ nat (e2 - e))"
    by (simp only: of_int_less_iff)
  also have "\<dots> \<longleftrightarrow> (of_int m1 * 2 powi e1 / 2 powi e :: rat) < of_int m2 * 2 powi e2 / 2 powi e"
    by (simp only: pow_align[OF le(1)] pow_align[OF le(2)])
  also have "\<dots> \<longleftrightarrow> (of_int m1 * 2 powi e1 :: rat) < of_int m2 * 2 powi e2"
    by (simp add: divide_less_cancel neg)
  finally show ?thesis .
qed

lemma fint_5: "fint 5 = Flt 5 0"
  by code_simp

lemma fint_22: "fint 22 = Flt 11 1"
  by code_simp

lemma fint_109: "fint 109 = Flt 109 0"
  by code_simp

subsection \<open>Stake tiers\<close>

lemma labels_distinct:
  "label_micro \<noteq> label_low" "label_micro \<noteq> label_mid" "label_micro \<noteq> label_high"
  "label_low \<noteq> label_mid" "label_low \<noteq> label_high" "label_mid \<noteq> label_high"
  by (simp_all add: label_micro_def label_low_def label_mid_def label_high_def)

lemma flt_chain_5_22: "flt b (fint 5) \<Longrightarrow> flt b (fint 22)"
proof (cases b)
  case (Flt m e)
  assume "flt b (fint 5)"
  then have "(of_int m * 2 powi e :: rat) < 5"
    unfolding Flt fint_5 flt_Flt_iff by simp
  then have "(of_int m * 2 powi e :: rat) < of_int 11 * 2 powi 1" by simp
  then show ?thesis unfolding Flt fint_22 flt_Flt_iff .
qed (simp_all add: fint_5 fint_22)

lemma flt_chain_22_109: "flt b (fint 22) \<Longrightarrow> flt b (fint 109)"
proof (cases b)
  case (Flt m e)
  assume "flt b (fint 22)"
  then have "(of_int m * 2 powi e :: rat) < 22"
    unfolding Flt fint_22 flt_Flt_iff by simp
  then have "(of_int m * 2 powi e :: rat) < of_int 109 * 2 powi 0" by simp
  then show ?thesis unfolding Flt fint_109 flt_Flt_iff .
qed (simp_all add: fint_109 fint_22)

lemma tier_examples:
  "get_limit_group (to_float (Some ''4.99'')) = label_micro"
  "get_limit_group (to_float (Some ''5.00'')) = label_low"
  "get_limit_group (to_float (Some ''21.99'')) = label_low"
  "get_limit_group (to_float (Some ''22.00'')) = label_mid"
  "get_limit_group (to_float (Some ''109.00'')) = label_high"
  by code_simp+

text \<open>
  C3. For every buy-in \<open>b\<close> the stake tier is one of the four labels (which are pairwise
  different): Micro when \<open>b < 5\<close>, Low when \<open>5 \<le> b < 22\<close>, Mid when \<open>22 \<le> b < 109\<close> and
  High when \<open>b \<ge> 109\<close>. The boundary values 5.00, 22.00 and 109.00 fall in Low, Mid and
  High; 4.99 is Micro and 21.99 is Low.
\<close>

theorem get_limit_group_tiers:
  "(flt b (fint 5) \<longrightarrow> get_limit_group b = label_micro) \<and>
   (fge b (fint 5) \<and> flt b (fint 22) \<longrightarrow> get_limit_group b = label_low) \<and>
   (fge b (fint 22) \<and> flt b (fint 109) \<longrightarrow> get_limit_group b = label_mid) \<and>
   (fge b (fint 109) \<longrightarrow> get_limit_group b = label_high) \<and>
   get_limit_group b \<in> {label_micro, label_low, label_mid, label_high} \<and>
   distinct [label_micro, label_low, label_mid, label_high] \<and>
   get_limit_group (to_float (Some ''4.99'')) = label_micro \<and>
   get_limit_group (to_float (Some ''5.00'')) = label_low \<and>
   get_limit_group (to_float (Some ''21.99'')) = label_low \<and>
   get_limit_group (to_float (Some ''22.00'')) = label_mid \<and>
   get_limit_group (to_float (Some ''109.00'')) = label_high"
  using flt_chain_5_22[of b] flt_chain_22_109[of b] labels_distinct tier_examples
  by (auto simp: get_limit_group_def fge_def)

theorem get_limit_group_tiers_witness:
  "flt (to_float (Some ''4.99'')) (fint 5) \<and>
   get_limit_group (to_float (Some ''4.99'')) = label_micro \<and>
   fge (to_float (Some ''21.99'')) (fint 5) \<and> flt (to_float (Some ''21.99'')) (fint 22) \<and>
   get_limit_group (to_float (Some ''21.99'')) = label_low \<and>
   fge (to_float (Some ''22.00'')) (fint 22) \<and> flt (to_float (Some ''22.00'')) (fint 109) \<and>
   get_limit_group (to_float (Some ''22.00'')) = label_mid \<and>
   fge (to_float (Some ''109.00'')) (fint 109) \<and>
   get_limit_group (to_float (Some ''109.00'')) = label_high"
proof -
  have h1: "flt (to_float (Some ''4.99'')) (fint 5)"
    by code_simp
  have h2: "fge (to_float (Some ''21.99'')) (fint 5) \<and> flt (to_float (Some ''21.99'')) (fint 22)"
    by code_simp
  have h3: "fge (to_float (Some ''22.00'')) (fint 22) \<and> flt (to_float (Some ''22.00'')) (fint 109)"
    by code_simp
  have h4: "fge (to_float (Some ''109.00'')) (fint 109)"
    by code_simp
  show ?thesis
    using h1 h2 h3 h4
      get_limit_group_tiers[of "to_float (Some ''4.99'')"]
      get_limit_group_tiers[of "to_float (Some ''21.99'')"]
      get_limit_group_tiers[of "to_float (Some ''22.00'')"]
      get_limit_group_tiers[of "to_float (Some ''109.00'')"]
    by blast
qed

subsection \<open>Amount coercion\<close>

lemma replace_char_removes: "a \<noteq> b \<Longrightarrow> a \<notin> set (replace_char a b s)"
  by (auto simp: replace_char_def)

text \<open>Every character of a string that \<open>float\<close> accepts can stand in a float literal.\<close>

lemma digit_tail_chars:
  "digit_tail s = (ds, r) \<Longrightarrow> c \<in> set s \<Longrightarrow> is_digit c \<or> c = CHR ''_'' \<or> c \<in> set r"
proof (induction s arbitrary: ds r rule: digit_tail.induct)
  case 1
  then show ?case by simp
next
  case (2 d cs)
  show ?case
  proof (cases "is_digit d")
    case True
    obtain ds' r' where t: "digit_tail cs = (ds', r')" by (cases "digit_tail cs")
    with True 2(3) have r: "r = r'" by simp
    from 2(4) have "c = d \<or> c \<in> set cs" by simp
    then show ?thesis
    proof
      assume "c = d" with True show ?thesis by simp
    next
      assume "c \<in> set cs"
      from 2(1)[OF True t this] r show ?thesis by simp
    qed
  next
    case False
    show ?thesis
    proof (cases "d = CHR ''_'' \<and> (case cs of [] \<Rightarrow> False | d # _ \<Rightarrow> is_digit d)")
      case True
      with False 2(3) have t: "digit_tail cs = (ds, r)" by simp
      from 2(4) have "c = d \<or> c \<in> set cs" by simp
      then show ?thesis
      proof
        assume "c = d" with True show ?thesis by simp
      next
        assume "c \<in> set cs"
        from 2(2)[OF False True t this] show ?thesis .
      qed
    next
      case F2: False
      with False 2(3) have "r = d # cs" by auto
      with 2(4) show ?thesis by simp
    qed
  qed
qed

lemma digitpart_chars:
  "digitpart s = Some (ds, r) \<Longrightarrow> c \<in> set s \<Longrightarrow> is_digit c \<or> c = CHR ''_'' \<or> c \<in> set r"
  using digit_tail_chars
  by (fastforce simp: digitpart_def split: list.splits if_splits prod.splits)

lemma mantissa_chars:
  assumes "mantissa s = Some (ip, fp, r)" "c \<in> set s"
  shows "is_digit c \<or> c = CHR ''_'' \<or> c = CHR ''.'' \<or> c \<in> set r"
proof (cases "digitpart s")
  case None
  with assms(1) obtain r2 where s: "s = CHR ''.'' # r2" and d: "digitpart r2 = Some (fp, r)"
    by (auto simp: mantissa_def split: list.splits if_splits option.splits)
  from s assms(2) have "c = CHR ''.'' \<or> c \<in> set r2" by simp
  with digitpart_chars[OF d, of c] show ?thesis by blast
next
  case (Some a)
  obtain ip' r1 where a: "a = (ip', r1)" by (cases a)
  from digitpart_chars[OF Some[unfolded a] assms(2)]
  have c1: "is_digit c \<or> c = CHR ''_'' \<or> c \<in> set r1" .
  show ?thesis
  proof (cases r1)
    case Nil
    with c1 show ?thesis by auto
  next
    case (Cons c' r2)
    show ?thesis
    proof (cases "c' = CHR ''.''")
      case True
      from c1 Cons True have c2: "is_digit c \<or> c = CHR ''_'' \<or> c = CHR ''.'' \<or> c \<in> set r2"
        by auto
      show ?thesis
      proof (cases "digitpart r2")
        case None
        with assms(1) Some a Cons True have "r = r2"
          by (simp add: mantissa_def)
        with c2 show ?thesis by auto
      next
        case (Some b)
        obtain fp' r3 where b: "b = (fp', r3)" by (cases b)
        with assms(1) \<open>digitpart s = Some a\<close> a Cons True Some have "r = r3"
          by (simp add: mantissa_def)
        with digitpart_chars[OF Some[unfolded b], of c] c2 show ?thesis by blast
      qed
    next
      case False
      with assms(1) Some a Cons have "r = r1"
        by (simp add: mantissa_def)
      with c1 show ?thesis by auto
    qed
  qed
qed

lemma take_sign_chars:
  "take_sign s = (neg, r) \<Longrightarrow> c \<in> set s \<Longrightarrow> c = CHR ''+'' \<or> c = CHR ''-'' \<or> c \<in> set r"
  by (auto simp: take_sign_def split: list.splits if_splits)

lemma exponent_chars:
  assumes "exponent s = Some ex" "c \<in> set s"
  shows "is_digit c \<or> c = CHR ''_'' \<or> lower c = CHR ''e'' \<or> c = CHR ''+'' \<or> c = CHR ''-''"
proof (cases s)
  case Nil
  with assms(2) show ?thesis by simp
next
  case (Cons c' r)
  obtain neg r' where ts: "take_sign r = (neg, r')" by (cases "take_sign r")
  from assms(1) Cons ts have e: "lower c' = CHR ''e''"
    and "\<exists>ds. digitpart r' = Some (ds, [])"
    by (auto simp: exponent_def split: if_splits option.splits list.splits)
  then obtain ds where d: "digitpart r' = Some (ds, [])" by blast
  from assms(2) Cons have "c = c' \<or> c \<in> set r" by simp
  with e take_sign_chars[OF ts, of c] digitpart_chars[OF d, of c] show ?thesis by auto
qed

lemma num_strip_chars: "c \<in> set s \<Longrightarrow> num_isspace c \<or> c \<in> set (num_strip s)"
proof -
  have d: "x \<in> set t \<Longrightarrow> num_isspace x \<or> x \<in> set (dropWhile num_isspace t)" for x t
    by (induction t) auto
  assume "c \<in> set s"
  from d[OF this] d[of c "rev (dropWhile num_isspace s)"] show ?thesis
    by (auto simp: num_strip_def)
qed

lemma py_float_chars:
  assumes "py_float s = Inr x" "c \<in> set s"
  shows "is_digit c \<or> num_isspace c \<or> c \<in> set ''+-._'' \<or> lower c \<in> set ''aefinty''"
proof -
  obtain neg r where ts: "take_sign (num_strip s) = (neg, r)" by (cases "take_sign (num_strip s)")
  from num_strip_chars[OF assms(2)] take_sign_chars[OF ts]
  have c: "num_isspace c \<or> c = CHR ''+'' \<or> c = CHR ''-'' \<or> c \<in> set r" by blast
  have w: "lower c \<in> set w" if "map lower r = w" "c \<in> set r" for w
    using that by auto
  show ?thesis
  proof (cases "map lower r = ''inf'' \<or> map lower r = ''infinity'' \<or> map lower r = ''nan''")
    case True
    with w c show ?thesis by fastforce
  next
    case False
    with assms(1) ts obtain ip fp r' ex where m: "mantissa r = Some (ip, fp, r')"
      and e: "exponent r' = Some ex"
      by (auto simp: py_float_def Let_def split: option.splits)
    from mantissa_chars[OF m] exponent_chars[OF e] c show ?thesis by fastforce
  qed
qed

lemma is_digit_simps [simp]:
  "\<not> is_digit CHR ''.''" "\<not> is_digit CHR ''_''" "\<not> is_digit CHR ''-''" "\<not> is_digit CHR ''+''"
  by (simp_all add: is_digit_def)

lemma digit_not_space: "is_digit c \<Longrightarrow> \<not> num_isspace c"
  by (auto simp: is_digit_def num_isspace_def)

lemma lower_digit: "is_digit c \<Longrightarrow> lower c = c"
  by (auto simp: is_digit_def lower_def)

lemma digit_tail_digits:
  assumes "\<forall>c\<in>set ds. is_digit c" "r = [] \<or> (\<not> is_digit (hd r) \<and> hd r \<noteq> CHR ''_'')"
  shows "digit_tail (ds @ r) = (ds, r)"
  using assms
proof (induction ds)
  case Nil
  then show ?case by (cases r) auto
next
  case (Cons d ds)
  then show ?case by simp
qed

lemma digitpart_digits:
  assumes "ds \<noteq> []" "\<forall>c\<in>set ds. is_digit c" "r = [] \<or> (\<not> is_digit (hd r) \<and> hd r \<noteq> CHR ''_'')"
  shows "digitpart (ds @ r) = Some (ds, r)"
proof (cases ds)
  case Nil
  with assms(1) show ?thesis by simp
next
  case (Cons d ds')
  with assms(2) have "is_digit d" "\<forall>c\<in>set ds'. is_digit c" by auto
  with digit_tail_digits[OF this(2) assms(3)] Cons show ?thesis
    by (simp add: digitpart_def)
qed

lemma mantissa_decimal:
  assumes "ip \<noteq> []" "\<forall>c\<in>set ip. is_digit c" "\<forall>c\<in>set fp. is_digit c"
  shows "mantissa ip = Some (ip, [], [])"
    and "mantissa (ip @ CHR ''.'' # fp) = Some (ip, fp, [])"
proof -
  from digitpart_digits[OF assms(1,2), of "[]"] show "mantissa ip = Some (ip, [], [])"
    by (simp add: mantissa_def)
  have d1: "digitpart (ip @ CHR ''.'' # fp) = Some (ip, CHR ''.'' # fp)"
    using digitpart_digits[OF assms(1,2), of "CHR ''.'' # fp"] by simp
  show "mantissa (ip @ CHR ''.'' # fp) = Some (ip, fp, [])"
  proof (cases "fp = []")
    case True
    with d1 show ?thesis by (simp add: mantissa_def digitpart_def)
  next
    case False
    from digitpart_digits[OF False assms(3), of "[]"] d1 show ?thesis
      by (simp add: mantissa_def)
  qed
qed

lemma dropWhile_pad: "\<forall>c\<in>set ws. P c \<Longrightarrow> \<not> P x \<Longrightarrow> dropWhile P (ws @ x # xs) = x # xs"
  by (induction ws) auto

lemma num_strip_pad:
  assumes "\<forall>c\<in>set ws1. num_isspace c" "\<forall>c\<in>set ws2. num_isspace c"
    "b \<noteq> []" "\<not> num_isspace (hd b)" "\<not> num_isspace (last b)"
  shows "num_strip (ws1 @ b @ ws2) = b"
proof -
  from assms(3) obtain x xs where b: "b = x # xs" by (cases b) auto
  from assms(3) obtain y ys where rb: "rev b = y # ys" by (cases "rev b") auto
  then have "y = last b" using assms(3) by (metis hd_rev list.sel(1))
  with assms(5) have y: "\<not> num_isspace y" by simp
  from assms(4) b have x: "\<not> num_isspace x" by simp
  have 1: "dropWhile num_isspace (ws1 @ b @ ws2) = b @ ws2"
    using dropWhile_pad[OF assms(1) x, of "xs @ ws2"] b by simp
  have "\<forall>c\<in>set (rev ws2). num_isspace c" using assms(2) by simp
  from dropWhile_pad[OF this y, of ys] rb
  have 2: "dropWhile num_isspace (rev ws2 @ rev b) = rev b" by simp
  show ?thesis
    by (simp add: num_strip_def 1 2)
qed

lemma py_float_core:
  assumes "num_strip s = r" "take_sign r = (neg, r')"
    "map lower r' \<noteq> ''inf''" "map lower r' \<noteq> ''infinity''" "map lower r' \<noteq> ''nan''"
    "mantissa r' = Some (ip, fp, r'')" "exponent r'' = Some ex"
  shows "py_float s =
           Inr (if neg then fneg (decimal_to_double (digits_val (ip @ fp)) (ex - int (length fp)))
                else decimal_to_double (digits_val (ip @ fp)) (ex - int (length fp)))"
  by (simp add: py_float_def assms Let_def)

lemma py_float_decimal:
  assumes "ip \<noteq> []" "\<forall>c\<in>set ip. is_digit c" "\<forall>c\<in>set fp. is_digit c"
    "\<forall>c\<in>set ws1. num_isspace c" "\<forall>c\<in>set ws2. num_isspace c"
  shows "py_float (ws1 @ ip @ ws2) = Inr (round_ratio (digits_val ip) 1)"
    and "py_float (ws1 @ ip @ CHR ''.'' # fp @ ws2) =
           Inr (round_ratio (digits_val (ip @ fp)) (10 ^ length fp))"
    and "py_float (ws1 @ CHR ''-'' # ip @ CHR ''.'' # fp @ ws2) =
           Inr (fneg (round_ratio (digits_val (ip @ fp)) (10 ^ length fp)))"
proof -
  from assms(1) obtain d ds where ip: "ip = d # ds" by (cases ip) auto
  with assms(2) have d: "is_digit d" by simp
  then have dl: "lower d = d" and dn: "\<not> num_isspace d" and dd: "d \<noteq> CHR ''-''" "d \<noteq> CHR ''+''"
    "d \<noteq> CHR ''i''" "d \<noteq> CHR ''n''"
    by (auto simp: lower_digit digit_not_space is_digit_def)
  have hd_ip: "hd (ip @ xs) = d" for xs using ip by simp
  have lastd: "\<not> num_isspace (last b)" if "b \<noteq> []" "\<forall>c\<in>set b. is_digit c \<or> c = CHR ''.''" for b
  proof -
    define l where "l = last b"
    have "l \<in> set b" unfolding l_def using that(1) by (rule last_in_set)
    with that(2) have "is_digit l \<or> l = CHR ''.''" by auto
    then have "\<not> num_isspace l"
    proof
      assume "is_digit l" then show ?thesis by (rule digit_not_space)
    next
      assume "l = CHR ''.''" then show ?thesis by (simp add: num_isspace_def)
    qed
    then show ?thesis unfolding l_def .
  qed
  have ts: "take_sign (ip @ xs) = (False, ip @ xs)" for xs
    using dd ip by (simp add: take_sign_def)
  have w: "map lower (ip @ xs) \<noteq> ''inf''" "map lower (ip @ xs) \<noteq> ''infinity''"
    "map lower (ip @ xs) \<noteq> ''nan''" for xs
    using dl dd ip by auto
  note m = mantissa_decimal[OF assms(1,2,3)]
  have e0: "exponent [] = Some 0" by (simp add: exponent_def)
  have dec: "decimal_to_double n (0 - int (length fp)) = round_ratio n (10 ^ length fp)" for n
    by (cases "fp = []") (simp_all add: decimal_to_double_def)
  have dec0: "decimal_to_double n (0 - int (length ([]::string))) = round_ratio n 1" for n
    by (simp add: decimal_to_double_def)
  have s1: "num_strip (ws1 @ ip @ ws2) = ip"
  proof (rule num_strip_pad[OF assms(4,5,1)])
    show "\<not> num_isspace (hd ip)" using dn ip by simp
    show "\<not> num_isspace (last ip)" using lastd[OF assms(1)] assms(2) by blast
  qed
  from py_float_core[OF s1 ts[of "[]", simplified] w(1)[of "[]", simplified]
      w(2)[of "[]", simplified] w(3)[of "[]", simplified] m(1) e0]
  show "py_float (ws1 @ ip @ ws2) = Inr (round_ratio (digits_val ip) 1)"
    using dec0 by simp
  let ?b = "ip @ CHR ''.'' # fp"
  have bne: "?b \<noteq> []" by simp
  have ball: "\<forall>c\<in>set ?b. is_digit c \<or> c = CHR ''.''" using assms(2,3) by auto
  have s2: "num_strip (ws1 @ ?b @ ws2) = ?b"
  proof (rule num_strip_pad[OF assms(4,5) bne])
    show "\<not> num_isspace (hd ?b)" using dn hd_ip by simp
    show "\<not> num_isspace (last ?b)" using lastd[OF bne ball] .
  qed
  from py_float_core[OF s2 ts w m(2) e0]
  show "py_float (ws1 @ ip @ CHR ''.'' # fp @ ws2) =
           Inr (round_ratio (digits_val (ip @ fp)) (10 ^ length fp))"
    using dec by simp
  let ?c = "CHR ''-'' # ?b"
  have cne: "?c \<noteq> []" by simp
  have s3: "num_strip (ws1 @ ?c @ ws2) = ?c"
  proof (rule num_strip_pad[OF assms(4,5) cne])
    show "\<not> num_isspace (hd ?c)" by (simp add: num_isspace_def)
    have "last ?c = last ?b" by simp
    then show "\<not> num_isspace (last ?c)" using lastd[OF bne ball] by simp
  qed
  have tsm: "take_sign ?c = (True, ?b)"
    by (simp add: take_sign_def)
  from py_float_core[OF s3 tsm w m(2) e0]
  show "py_float (ws1 @ CHR ''-'' # ip @ CHR ''.'' # fp @ ws2) =
           Inr (fneg (round_ratio (digits_val (ip @ fp)) (10 ^ length fp)))"
    using dec by simp
qed


lemma digit_tail_dots: "digit_tail s = (ds, r) \<Longrightarrow> dots s = dots r"
proof (induction s arbitrary: ds r rule: digit_tail.induct)
  case 1
  then show ?case by simp
next
  case (2 d cs)
  show ?case
  proof (cases "is_digit d")
    case True
    obtain ds' r' where t: "digit_tail cs = (ds', r')" by (cases "digit_tail cs")
    with True 2(3) have r: "r = r'" by simp
    from True have "d \<noteq> CHR ''.''" by auto
    with 2(1)[OF True t] r show ?thesis by simp
  next
    case False
    show ?thesis
    proof (cases "d = CHR ''_'' \<and> (case cs of [] \<Rightarrow> False | d # _ \<Rightarrow> is_digit d)")
      case True
      with False 2(3) have t: "digit_tail cs = (ds, r)" by simp
      from 2(2)[OF False True t] True show ?thesis by simp
    next
      case F2: False
      with False 2(3) have "r = d # cs" by auto
      then show ?thesis by simp
    qed
  qed
qed

lemma digitpart_dots: "digitpart s = Some (ds, r) \<Longrightarrow> dots s = dots r"
proof (cases s)
  case Nil
  assume "digitpart s = Some (ds, r)"
  with Nil show ?thesis by (simp add: digitpart_def)
next
  case (Cons c cs)
  assume a: "digitpart s = Some (ds, r)"
  obtain ds' r' where t: "digit_tail cs = (ds', r')" by (cases "digit_tail cs")
  from a Cons t have "is_digit c" "r = r'"
    by (auto simp: digitpart_def split: if_splits)
  moreover from this have "c \<noteq> CHR ''.''" by auto
  ultimately show ?thesis using digit_tail_dots[OF t] Cons by simp
qed

lemma mantissa_dots:
  assumes "mantissa s = Some (ip, fp, r)"
  shows "length (dots s) \<le> Suc (length (dots r))"
proof (cases "digitpart s")
  case None
  with assms obtain r2 where s: "s = CHR ''.'' # r2" and d: "digitpart r2 = Some (fp, r)"
    by (auto simp: mantissa_def split: list.splits if_splits option.splits)
  with digitpart_dots[OF d] show ?thesis by simp
next
  case (Some a)
  obtain ip' r1 where a: "a = (ip', r1)" by (cases a)
  from digitpart_dots[OF Some[unfolded a]] have c1: "dots s = dots r1" .
  show ?thesis
  proof (cases r1)
    case Nil
    with c1 show ?thesis by simp
  next
    case (Cons c' r2)
    show ?thesis
    proof (cases "c' = CHR ''.''")
      case True
      from c1 Cons True have c2: "length (dots s) = Suc (length (dots r2))"
        by simp
      show ?thesis
      proof (cases "digitpart r2")
        case None
        with assms Some a Cons True have "r = r2"
          by (simp add: mantissa_def)
        with c2 show ?thesis by simp
      next
        case (Some b)
        obtain fp' r3 where b: "b = (fp', r3)" by (cases b)
        with assms \<open>digitpart s = Some a\<close> a Cons True Some have "r = r3"
          by (simp add: mantissa_def)
        with digitpart_dots[OF Some[unfolded b]] c2 show ?thesis by simp
      qed
    next
      case False
      with assms Some a Cons have "r = r1"
        by (simp add: mantissa_def)
      with c1 show ?thesis by simp
    qed
  qed
qed

lemma lower_dot: "lower CHR ''.'' = CHR ''.''"
  by (simp add: lower_def)

lemma exponent_dots: "exponent s = Some ex \<Longrightarrow> dots s = []"
  using exponent_chars[of s ex "CHR ''.''"] by (auto simp: filter_empty_conv lower_dot)

lemma take_sign_dots: "take_sign s = (neg, r) \<Longrightarrow> dots s = dots r"
  by (auto simp: take_sign_def split: list.splits if_splits)

lemma filter_dropWhile: "\<forall>c. Q c \<longrightarrow> \<not> P c \<Longrightarrow> filter Q (dropWhile P xs) = filter Q xs"
  by (induction xs) auto

lemma num_strip_dots: "dots (num_strip s) = dots s"
proof -
  have q: "\<forall>c. c = CHR ''.'' \<longrightarrow> \<not> num_isspace c" by (simp add: num_isspace_def)
  have "dots (num_strip s) = rev (dots (dropWhile num_isspace (rev (dropWhile num_isspace s))))"
    by (simp add: num_strip_def rev_filter)
  also have "\<dots> = rev (dots (rev (dropWhile num_isspace s)))"
    by (simp only: filter_dropWhile[OF q])
  also have "\<dots> = dots (dropWhile num_isspace s)"
    by (simp add: rev_filter)
  also have "\<dots> = dots s"
    by (simp only: filter_dropWhile[OF q])
  finally show ?thesis .
qed

lemma py_float_dots:
  assumes "py_float s = Inr x"
  shows "length (dots s) \<le> 1"
proof -
  obtain neg r where ts: "take_sign (num_strip s) = (neg, r)" by (cases "take_sign (num_strip s)")
  have sr: "dots s = dots r" using take_sign_dots[OF ts] num_strip_dots[of s] by simp
  show ?thesis
  proof (cases "map lower r = ''inf'' \<or> map lower r = ''infinity'' \<or> map lower r = ''nan''")
    case True
    have "c \<in> set r \<Longrightarrow> lower c \<in> set (map lower r)" for c by simp
    with True have "c \<in> set r \<Longrightarrow> lower c \<noteq> CHR ''.''" for c by fastforce
    then have "CHR ''.'' \<notin> set r" using lower_dot by blast
    then have "dots r = []" by (auto simp: filter_empty_conv)
    with sr show ?thesis by simp
  next
    case False
    with assms ts obtain ip fp r' ex where m: "mantissa r = Some (ip, fp, r')"
      and e: "exponent r' = Some ex"
      by (auto simp: py_float_def Let_def split: option.splits)
    from mantissa_dots[OF m] exponent_dots[OF e] sr show ?thesis by simp
  qed
qed

lemma replace_char_dots:
  "length (dots (replace_char CHR '','' CHR ''.'' s)) =
   length (filter (\<lambda>c. c = CHR '','' \<or> c = CHR ''.'') s)"
  by (induction s) (auto simp: replace_char_def)

lemma replace_char_set:
  "c \<in> set s \<Longrightarrow> c \<noteq> CHR '','' \<Longrightarrow> c \<in> set (replace_char CHR '','' CHR ''.'' s)"
  by (auto simp: replace_char_def)

lemma replace_char_id:
  "CHR '','' \<notin> set s \<Longrightarrow> replace_char CHR '','' CHR ''.'' s = s"
  by (induction s) (auto simp: replace_char_def)

lemma replace_char_append:
  "replace_char a b (xs @ ys) = replace_char a b xs @ replace_char a b ys"
  by (simp add: replace_char_def)

lemma to_float_decimal:
  assumes "ip \<noteq> []" "\<forall>c\<in>set ip. is_digit c" "\<forall>c\<in>set fp. is_digit c"
    "\<forall>c\<in>set ws1. num_isspace c" "\<forall>c\<in>set ws2. num_isspace c"
    "sep = CHR '','' \<or> sep = CHR ''.''"
  shows "to_float (Some (ws1 @ ip @ ws2)) = round_ratio (digits_val ip) 1"
    and "to_float (Some (ws1 @ ip @ sep # fp @ ws2)) =
           round_ratio (digits_val (ip @ fp)) (10 ^ length fp)"
    and "to_float (Some (ws1 @ CHR ''-'' # ip @ sep # fp @ ws2)) =
           fneg (round_ratio (digits_val (ip @ fp)) (10 ^ length fp))"
proof -
  have nc: "CHR '','' \<notin> set ws" if "\<forall>c\<in>set ws. num_isspace c \<or> is_digit c" for ws
    using that by (auto simp: num_isspace_def is_digit_def)
  have r: "replace_char CHR '','' CHR ''.'' ws1 = ws1" "replace_char CHR '','' CHR ''.'' ws2 = ws2"
    "replace_char CHR '','' CHR ''.'' ip = ip" "replace_char CHR '','' CHR ''.'' fp = fp"
    using assms(2-5) by (auto intro!: replace_char_id nc)
  have sp: "replace_char CHR '','' CHR ''.'' (sep # xs) = CHR ''.'' # replace_char CHR '','' CHR ''.'' xs" for xs
    using assms(6) by (auto simp: replace_char_def)
  have m: "replace_char CHR '','' CHR ''.'' (CHR ''-'' # xs) = CHR ''-'' # replace_char CHR '','' CHR ''.'' xs" for xs
    by (auto simp: replace_char_def)
  note p = py_float_decimal[OF assms(1-5)]
  from assms(1) show "to_float (Some (ws1 @ ip @ ws2)) = round_ratio (digits_val ip) 1"
    by (simp add: to_float_def replace_char_append r p(1))
  show "to_float (Some (ws1 @ ip @ sep # fp @ ws2)) =
           round_ratio (digits_val (ip @ fp)) (10 ^ length fp)"
    by (simp add: to_float_def replace_char_append r sp p(2))
  show "to_float (Some (ws1 @ CHR ''-'' # ip @ sep # fp @ ws2)) =
           fneg (round_ratio (digits_val (ip @ fp)) (10 ^ length fp))"
    by (simp add: to_float_def replace_char_append r sp m p(3))
qed

lemma to_float_foreign:
  assumes "c \<in> set s" "\<not> is_digit c" "\<not> num_isspace c" "c \<notin> set ''+-.,_''"
    "lower c \<notin> set ''aefinty''"
  shows "to_float (Some s) = Flt 0 0"
proof (cases "py_float (replace_char CHR '','' CHR ''.'' s)")
  case (Inl e)
  then show ?thesis by (simp add: to_float_def)
next
  case (Inr x)
  from assms(1,4) have "c \<in> set (replace_char CHR '','' CHR ''.'' s)"
    by (intro replace_char_set) auto
  from py_float_chars[OF Inr this] assms(2-5) show ?thesis by simp
qed

lemma to_float_two_separators:
  assumes "2 \<le> length (filter (\<lambda>c. c = CHR '','' \<or> c = CHR ''.'') s)"
  shows "to_float (Some s) = Flt 0 0"
proof (cases "py_float (replace_char CHR '','' CHR ''.'' s)")
  case (Inl e)
  then show ?thesis by (simp add: to_float_def)
next
  case (Inr x)
  from py_float_dots[OF Inr] assms show ?thesis by (simp add: replace_char_dots)
qed

lemma to_float_examples:
  "to_float (Some ''1,5'') = Flt 3 (- 1)"
  "to_float (Some ''abc'') = Flt 0 0"
  "to_float (Some '' 1.5 '') = Flt 3 (- 1)"
  "to_float (Some ''-2,25'') = Flt (- 9) (- 2)"
  "to_float (Some ''0,1'') = Flt 3602879701896397 (- 55)"
  "to_float (Some ''1e3'') = Flt 125 3"
  "to_float (Some ''1,5E-1'') = Flt 5404319552844595 (- 55)"
  "to_float (Some ''1_000,5'') = Flt 2001 (- 1)"
  "to_float (Some ''inf'') = PosInf"
  "to_float (Some ''-Infinity'') = NegInf"
  "to_float (Some ''nan'') = NaN"
  "to_float (Some ''12abc'') = Flt 0 0"
  "to_float (Some ''1,234.56'') = Flt 0 0"
  "to_float (Some ''1 5'') = Flt 0 0"
  "to_float (Some ''1__0'') = Flt 0 0"
  "to_float (Some ''1e'') = Flt 0 0"
  "to_float (Some ''--1'') = Flt 0 0"
  "to_float (Some (CHR 0x1C # ''1.5'')) = Flt 0 0"
  "to_float (Some (CHR 0xA0 # ''1.5'')) = Flt 3 (- 1)"
  by code_simp+

text \<open>
  C9. \<open>to_float\<close> is a total function into the floats, so it never raises. It maps a
  missing or empty cell to 0.0. Any other cell has every comma replaced by a period and
  is parsed by \<open>float\<close>; the result is the parsed number, and 0.0 when \<open>float\<close> rejects the
  string. What \<open>float\<close> does is pinned down on both sides: a decimal numeral (digits, one
  comma or period, digits; a minus sign and surrounding whitespace allowed) gives the
  double nearest to the decimal; a cell holding a character that can stand in no float
  literal, or more than one comma or period, gives 0.0.
  \<open>to_float("1,5")\<close> is 1.5, \<open>to_float("")\<close> and \<open>to_float("abc")\<close> are 0.0.
\<close>

theorem to_float_spec:
  "to_float None = Flt 0 0 \<and>
   to_float (Some []) = Flt 0 0 \<and>
   (v \<noteq> [] \<and> py_float (replace_char CHR '','' CHR ''.'' v) = Inr x \<longrightarrow> to_float (Some v) = x) \<and>
   (isl (py_float (replace_char CHR '','' CHR ''.'' v)) \<longrightarrow> to_float (Some v) = Flt 0 0) \<and>
   CHR '','' \<notin> set (replace_char CHR '','' CHR ''.'' v) \<and>
   (ip \<noteq> [] \<and> (\<forall>c\<in>set (ip @ fp). is_digit c) \<and> (\<forall>c\<in>set (ws1 @ ws2). num_isspace c) \<and>
    (sep = CHR '','' \<or> sep = CHR ''.'') \<longrightarrow>
      to_float (Some (ws1 @ ip @ ws2)) = round_ratio (digits_val ip) 1 \<and>
      to_float (Some (ws1 @ ip @ sep # fp @ ws2)) =
        round_ratio (digits_val (ip @ fp)) (10 ^ length fp) \<and>
      to_float (Some (ws1 @ CHR ''-'' # ip @ sep # fp @ ws2)) =
        fneg (round_ratio (digits_val (ip @ fp)) (10 ^ length fp))) \<and>
   (c \<in> set s \<and> \<not> is_digit c \<and> \<not> num_isspace c \<and> c \<notin> set ''+-.,_'' \<and>
    lower c \<notin> set ''aefinty'' \<longrightarrow> to_float (Some s) = Flt 0 0) \<and>
   (2 \<le> length (filter (\<lambda>c. c = CHR '','' \<or> c = CHR ''.'') t) \<longrightarrow> to_float (Some t) = Flt 0 0) \<and>
   to_float (Some ''1,5'') = Flt 3 (- 1) \<and> fval (Flt 3 (- 1)) = Some (3 / 2) \<and>
   to_float (Some ''abc'') = Flt 0 0 \<and> fval (Flt 0 0) = Some 0 \<and>
   to_float (Some ''1e3'') = Flt 125 3 \<and> fval (Flt 125 3) = Some 1000 \<and>
   to_float (Some ''12abc'') = Flt 0 0 \<and>
   to_float (Some (CHR 0x1C # ''1.5'')) = Flt 0 0"
proof -
  have a: "v \<noteq> [] \<and> py_float (replace_char CHR '','' CHR ''.'' v) = Inr x \<longrightarrow> to_float (Some v) = x"
    by (simp add: to_float_def)
  have b: "isl (py_float (replace_char CHR '','' CHR ''.'' v)) \<longrightarrow> to_float (Some v) = Flt 0 0"
    by (cases "py_float (replace_char CHR '','' CHR ''.'' v)") (simp_all add: to_float_def)
  have d: "ip \<noteq> [] \<and> (\<forall>c\<in>set (ip @ fp). is_digit c) \<and> (\<forall>c\<in>set (ws1 @ ws2). num_isspace c) \<and>
    (sep = CHR '','' \<or> sep = CHR ''.'') \<longrightarrow>
      to_float (Some (ws1 @ ip @ ws2)) = round_ratio (digits_val ip) 1 \<and>
      to_float (Some (ws1 @ ip @ sep # fp @ ws2)) =
        round_ratio (digits_val (ip @ fp)) (10 ^ length fp) \<and>
      to_float (Some (ws1 @ CHR ''-'' # ip @ sep # fp @ ws2)) =
        fneg (round_ratio (digits_val (ip @ fp)) (10 ^ length fp))"
    using to_float_decimal[of ip fp ws1 ws2 sep] by auto
  have f: "c \<in> set s \<and> \<not> is_digit c \<and> \<not> num_isspace c \<and> c \<notin> set ''+-.,_'' \<and>
    lower c \<notin> set ''aefinty'' \<longrightarrow> to_float (Some s) = Flt 0 0"
    using to_float_foreign[of c s] by blast
  have g: "2 \<le> length (filter (\<lambda>c. c = CHR '','' \<or> c = CHR ''.'') t) \<longrightarrow> to_float (Some t) = Flt 0 0"
    using to_float_two_separators[of t] by blast
  have e: "fval (Flt 3 (- 1)) = Some (3 / 2)" "fval (Flt 0 0) = Some 0" "fval (Flt 125 3) = Some 1000"
    by (simp_all add: fval_def)
  show ?thesis
    using a b d f g e to_float_examples(1,2,6,12,18) replace_char_removes[of "CHR '',''" "CHR ''.''" v]
    by (simp add: to_float_def)
qed

theorem to_float_spec_witness:
  "to_float (Some ''1,5'') = round_ratio 15 10 \<and> round_ratio 15 10 = Flt 3 (- 1) \<and>
   to_float (Some '' -12.25 '') = fneg (round_ratio 1225 100) \<and>
   fneg (round_ratio 1225 100) = Flt (- 49) (- 2) \<and>
   to_float (Some ''7'') = Flt 7 0 \<and>
   to_float (Some ''$10'') = Flt 0 0 \<and>
   to_float (Some ''1,234.56'') = Flt 0 0"
proof -
  have h1: "''1'' \<noteq> [] \<and> (\<forall>c\<in>set (''1'' @ ''5''). is_digit c) \<and>
            (\<forall>c\<in>set ([] @ []). num_isspace c) \<and> (CHR '','' = CHR '','' \<or> CHR '','' = CHR ''.'')"
    by (simp add: is_digit_def)
  have r1: "digits_val (''1'' @ ''5'') = 15" "(10::int) ^ length ''5'' = 10"
    by (simp_all add: digits_val_def digit_val_def)
  have v1: "round_ratio 15 10 = Flt 3 (- 1)" by code_simp
  have h2: "''12'' \<noteq> [] \<and> (\<forall>c\<in>set (''12'' @ ''25''). is_digit c) \<and>
            (\<forall>c\<in>set ('' '' @ '' ''). num_isspace c) \<and> (CHR ''.'' = CHR '','' \<or> CHR ''.'' = CHR ''.'')"
    by (simp add: is_digit_def num_isspace_def)
  have r2: "digits_val (''12'' @ ''25'') = 1225" "(10::int) ^ length ''25'' = 100"
    by (simp_all add: digits_val_def digit_val_def)
  have v2: "fneg (round_ratio 1225 100) = Flt (- 49) (- 2)" by code_simp
  have h3: "''7'' \<noteq> [] \<and> (\<forall>c\<in>set (''7'' @ []). is_digit c) \<and>
            (\<forall>c\<in>set ([] @ []). num_isspace c) \<and> (CHR ''.'' = CHR '','' \<or> CHR ''.'' = CHR ''.'')"
    by (simp add: is_digit_def)
  have r3: "digits_val ''7'' = 7" by (simp add: digits_val_def digit_val_def)
  have v3: "round_ratio 7 1 = Flt 7 0" by code_simp
  have h4: "CHR ''$'' \<in> set ''$10'' \<and> \<not> is_digit CHR ''$'' \<and> \<not> num_isspace CHR ''$'' \<and>
            CHR ''$'' \<notin> set ''+-.,_'' \<and> lower CHR ''$'' \<notin> set ''aefinty''"
    by (simp add: is_digit_def num_isspace_def lower_def)
  have h5: "2 \<le> length (filter (\<lambda>c. c = CHR '','' \<or> c = CHR ''.'') ''1,234.56'')"
    by simp
  from to_float_spec[where ip = "''1''" and fp = "''5''" and ?ws1.0 = "[]" and ?ws2.0 = "[]"
      and sep = "CHR '',''" and c = "CHR ''$''" and s = "''$10''" and t = "''1,234.56''"] h1 h4 h5
  have a: "to_float (Some ([] @ ''1'' @ CHR '','' # ''5'' @ [])) =
             round_ratio (digits_val (''1'' @ ''5'')) (10 ^ length ''5'')"
    and b: "to_float (Some ''$10'') = Flt 0 0" and c: "to_float (Some ''1,234.56'') = Flt 0 0"
    by blast+
  from to_float_spec[where ip = "''12''" and fp = "''25''" and ?ws1.0 = "'' ''" and ?ws2.0 = "'' ''"
      and sep = "CHR ''.''"] h2
  have d: "to_float (Some ('' '' @ CHR ''-'' # ''12'' @ CHR ''.'' # ''25'' @ '' '')) =
             fneg (round_ratio (digits_val (''12'' @ ''25'')) (10 ^ length ''25''))"
    by blast
  from to_float_spec[where ip = "''7''" and fp = "[]" and ?ws1.0 = "[]" and ?ws2.0 = "[]"
      and sep = "CHR ''.''"] h3
  have e: "to_float (Some ([] @ ''7'' @ [])) = round_ratio (digits_val ''7'') 1"
    by blast
  from a r1 have a': "to_float (Some ''1,5'') = round_ratio 15 10" by simp
  from d r2 have d': "to_float (Some '' -12.25 '') = fneg (round_ratio 1225 100)" by simp
  from e r3 v3 have e': "to_float (Some ''7'') = Flt 7 0" by simp
  from a' v1 d' v2 e' b c show ?thesis by simp
qed

subsection \<open>Date parsing\<close>

lemma try_formats_Some:
  "try_formats v fs = Some d \<longleftrightarrow>
     (\<exists>i<length fs. strptime (strip v) (fs ! i) = Inr d \<and> (\<forall>j<i. isl (strptime (strip v) (fs ! j))))"
proof (induction fs)
  case Nil
  then show ?case by simp
next
  case (Cons f fs)
  show ?case
  proof (cases "strptime (strip v) f")
    case (Inl e)
    have "(\<exists>i<length (f # fs). strptime (strip v) ((f # fs) ! i) = Inr d \<and> (\<forall>j<i. isl (strptime (strip v) ((f # fs) ! j))))
          \<longleftrightarrow> (\<exists>i<length fs. strptime (strip v) (fs ! i) = Inr d \<and> (\<forall>j<i. isl (strptime (strip v) (fs ! j))))"
      (is "?L \<longleftrightarrow> ?R")
    proof
      assume ?L
      then obtain i where i: "i < length (f # fs)" "strptime (strip v) ((f # fs) ! i) = Inr d"
        "\<forall>j<i. isl (strptime (strip v) ((f # fs) ! j))" by blast
      from i(2) Inl obtain k where k: "i = Suc k" by (cases i) auto
      have "\<forall>j<k. isl (strptime (strip v) (fs ! j))"
      proof (intro allI impI)
        fix j assume "j < k"
        then have "Suc j < i" using k by simp
        with i(3) have "isl (strptime (strip v) ((f # fs) ! Suc j))" by blast
        then show "isl (strptime (strip v) (fs ! j))" by simp
      qed
      with i k show ?R by auto
    next
      assume ?R
      then obtain i where i: "i < length fs" "strptime (strip v) (fs ! i) = Inr d"
        "\<forall>j<i. isl (strptime (strip v) (fs ! j))" by blast
      have "\<forall>j<Suc i. isl (strptime (strip v) ((f # fs) ! j))"
      proof (intro allI impI)
        fix j assume "j < Suc i"
        then show "isl (strptime (strip v) ((f # fs) ! j))"
          using Inl i(3) by (cases j) auto
      qed
      with i show ?L by (intro exI[of _ "Suc i"]) auto
    qed
    with Inl Cons.IH show ?thesis by simp
  next
    case (Inr d')
    have "(\<exists>i<length (f # fs). strptime (strip v) ((f # fs) ! i) = Inr d \<and> (\<forall>j<i. isl (strptime (strip v) ((f # fs) ! j))))
          \<longleftrightarrow> d' = d" (is "?L \<longleftrightarrow> _")
    proof
      assume ?L
      then obtain i where i: "i < length (f # fs)" "strptime (strip v) ((f # fs) ! i) = Inr d"
        "\<forall>j<i. isl (strptime (strip v) ((f # fs) ! j))" by blast
      have "i = 0"
      proof (rule ccontr)
        assume "i \<noteq> 0"
        then have "isl (strptime (strip v) ((f # fs) ! 0))" using i(3) by blast
        with Inr show False by simp
      qed
      with i(2) Inr show "d' = d" by simp
    next
      assume "d' = d"
      with Inr show ?L by (intro exI[of _ 0]) simp
    qed
    with Inr show ?thesis by simp
  qed
qed

lemma try_formats_None:
  "try_formats v fs = None \<longleftrightarrow> (\<forall>j<length fs. isl (strptime (strip v) (fs ! j)))"
proof (induction fs)
  case Nil
  then show ?case by simp
next
  case (Cons f fs)
  show ?case
  proof (cases "strptime (strip v) f")
    case (Inl e)
    have "(\<forall>j<length (f # fs). isl (strptime (strip v) ((f # fs) ! j))) \<longleftrightarrow>
          (\<forall>j<length fs. isl (strptime (strip v) (fs ! j)))"
      using Inl by (auto simp: less_Suc_eq_0_disj)
    with Inl Cons.IH show ?thesis by simp
  next
    case (Inr d')
    then have "\<not> (\<forall>j<length (f # fs). isl (strptime (strip v) ((f # fs) ! j)))"
      by (auto intro!: exI[of _ 0])
    with Inr show ?thesis by simp
  qed
qed

text \<open>
  C5. \<open>parse_date\<close> tries the six formats in their fixed order, on the stripped string
  each time, and returns the result of the first one that \<open>strptime\<close> accepts: a
  format is only reached when every format before it has failed. It returns no value for
  a missing or empty string and when all six fail.
\<close>

theorem parse_date_first_success:
  "parse_date None = None \<and>
   parse_date (Some []) = None \<and>
   (s \<noteq> [] \<and> i < length formats \<and> strptime (strip s) (formats ! i) = Inr d \<and>
      (\<forall>j<i. isl (strptime (strip s) (formats ! j))) \<longrightarrow> parse_date (Some s) = Some d) \<and>
   (s \<noteq> [] \<and> (\<forall>j<length formats. isl (strptime (strip s) (formats ! j))) \<longrightarrow>
      parse_date (Some s) = None) \<and>
   formats = [''%Y-%m-%d'', ''%Y-%m-%d %H:%M'', ''%Y-%m-%d %H:%M:%S'',
              ''%d.%m.%Y'', ''%d.%m.%Y %H:%M'', ''%d.%m.%Y %H:%M:%S'']"
proof -
  have a: "parse_date (Some s) = Some d"
    if "s \<noteq> []" "i < length formats" "strptime (strip s) (formats ! i) = Inr d"
       "\<forall>j<i. isl (strptime (strip s) (formats ! j))"
  proof -
    have "try_formats s formats = Some d"
      using that(2-4) unfolding try_formats_Some by blast
    with that(1) show ?thesis by (simp add: parse_date_def)
  qed
  have b: "parse_date (Some s) = None"
    if "s \<noteq> []" "\<forall>j<length formats. isl (strptime (strip s) (formats ! j))"
    using that by (simp add: parse_date_def try_formats_None)
  show ?thesis
    using a b by (auto simp: parse_date_def formats_def)
qed

theorem parse_date_first_success_witness:
  "parse_date (Some '' 05.01.2024 10:30 '') =
     Some \<lparr>year = 2024, month = 1, day = 5, hour = 10, minute = 30, second = 0, microsecond = 0\<rparr> \<and>
   parse_date (Some ''2024/01/05'') = None"
proof -
  have h1: "'' 05.01.2024 10:30 '' \<noteq> [] \<and> (4::nat) < length formats"
    by code_simp
  have h2: "strptime (strip '' 05.01.2024 10:30 '') (formats ! 4) =
      Inr \<lparr>year = 2024, month = 1, day = 5, hour = 10, minute = 30, second = 0, microsecond = 0\<rparr>"
    by code_simp
  have h3: "\<forall>j<4. isl (strptime (strip '' 05.01.2024 10:30 '') (formats ! j))"
    by code_simp
  have h4: "''2024/01/05'' \<noteq> [] \<and> (\<forall>j<length formats. isl (strptime (strip ''2024/01/05'') (formats ! j)))"
    by code_simp
  show ?thesis
    using h1 h2 h3 h4
      parse_date_first_success[of "'' 05.01.2024 10:30 ''" 4
        "\<lparr>year = 2024, month = 1, day = 5, hour = 10, minute = 30, second = 0, microsecond = 0\<rparr>"]
      parse_date_first_success[of "''2024/01/05''"]
    by blast
qed

subsection \<open>Filter stage\<close>

lemma lex_less_total:
  "length xs = length ys \<Longrightarrow> (\<not> lex_less xs ys) = (lex_less ys xs \<or> xs = ys)"
proof (induction xs ys rule: lex_less.induct)
  case (1 x xs y ys)
  then show ?case by auto
qed auto

lemma dt_le_iff: "dt_le b a \<longleftrightarrow> \<not> dt_less a b"
proof -
  have "length (dt_key a) = length (dt_key b)" by (simp add: dt_key_def)
  from lex_less_total[OF this] show ?thesis
    unfolding dt_le_def dt_less_def by auto
qed

lemma filter_loop_eq:
  "filter_loop rs cur d_min d_max =
     filter (\<lambda>r. (truthy cur \<longrightarrow> Some (currency r) = cur) \<and>
                 (case d_min of None \<Rightarrow> True | Some d \<Rightarrow> dt_le d (date r)) \<and>
                 (case d_max of None \<Rightarrow> True | Some d \<Rightarrow> dt_le (date r) d)) rs"
  by (induction rs) (auto simp: dt_le_iff split: option.splits)

lemma later_same_day:
  assumes "year a = year b" "month a = month b" "day a = day b"
    "hour b = 0" "minute b = 0" "second b = 0" "microsecond b = 0"
    "\<not> (hour a = 0 \<and> minute a = 0 \<and> second a = 0 \<and> microsecond a = 0)"
  shows "\<not> dt_le a b"
proof -
  have "dt_less b a"
    using assms by (simp add: dt_less_def dt_key_def) arith
  then show ?thesis by (simp add: dt_le_iff)
qed

lemma match_keys:
  "match_items items s = Some (fs, r) \<Longrightarrow> fst ` set fs \<subseteq> {c. Directive c \<in> set items}"
  "try_alts alts c items' s' = Some (fs', r') \<Longrightarrow>
     fst ` set fs' \<subseteq> insert c {c. Directive c \<in> set items'}"
proof (induction items s and alts c items' s' arbitrary: fs r and fs' r'
       rule: match_items_try_alts.induct)
  case (1 s)
  then show ?case by simp
next
  case (2 c items s)
  then show ?case by (auto split: list.splits if_splits)
next
  case (3 items s)
  then show ?case by (auto split: list.splits if_splits)
next
  case (4 c items s)
  from "4.prems" obtain alts where a: "directive_regex c = Some alts"
    and t: "try_alts alts c items s = Some (fs, r)"
    by (auto split: option.splits)
  from "4.IH"[OF a t] show ?case by auto
next
  case (5 c items s)
  then show ?case by simp
next
  case (6 a alts c items s)
  show ?case
  proof (cases "match_alt a s")
    case None
    with "6.prems" "6.IH"(1) show ?thesis by simp
  next
    case (Some p)
    obtain t r0 where p: "p = (t, r0)" by (cases p)
    show ?thesis
    proof (cases "match_items items r0")
      case None
      with "6.prems" "6.IH"(3)[OF Some p[symmetric] None] Some p show ?thesis by simp
    next
      case (Some q)
      obtain fs0 r1 where q: "q = (fs0, r1)" by (cases q)
      from "6.IH"(2)[OF \<open>match_alt a s = Some p\<close> p[symmetric]] Some q
      have "fst ` set fs0 \<subseteq> {c. Directive c \<in> set items}" by simp
      moreover from "6.prems" \<open>match_alt a s = Some p\<close> p Some q
      have "fs' = (c, t) # fs0" by simp
      ultimately show ?thesis by auto
    qed
  qed
qed

lemma compile_ymd:
  "compile_format ''%Y-%m-%d'' =
     [Directive CHR ''Y'', Literal CHR ''-'', Directive CHR ''m'', Literal CHR ''-'', Directive CHR ''d'']"
  by code_simp

lemma strptime_ymd_midnight:
  assumes "strptime s ''%Y-%m-%d'' = Inr d"
  shows "hour d = 0 \<and> minute d = 0 \<and> second d = 0 \<and> microsecond d = 0"
proof -
  from assms obtain fs where m: "match_items (compile_format ''%Y-%m-%d'') s = Some (fs, [])"
    by (auto simp: strptime_def split: option.splits prod.splits if_splits)
  from match_keys(1)[OF m]
  have "fst ` set fs \<subseteq> {CHR ''Y'', CHR ''m'', CHR ''d''}"
    unfolding compile_ymd by auto
  then have "map_of fs CHR ''H'' = None" "map_of fs CHR ''M'' = None" "map_of fs CHR ''S'' = None"
    by (auto simp: map_of_eq_None_iff)
  with assms m show ?thesis
    by (auto simp: strptime_def field_def Let_def split: if_splits)
qed

lemma date_bound_cases:
  "date_bound v = Inr None \<longleftrightarrow> \<not> truthy v"
  "date_bound v = Inr (Some d) \<longleftrightarrow> (\<exists>s. v = Some s \<and> s \<noteq> [] \<and> strptime s ''%Y-%m-%d'' = Inr d)"
  "date_bound v = Inl e \<longleftrightarrow> (\<exists>s. v = Some s \<and> s \<noteq> [] \<and> strptime s ''%Y-%m-%d'' = Inl e)"
  by (auto simp: date_bound_def truthy_def split: option.splits sum.splits)

text \<open>
  C1. \<open>filter_records\<close> is a stable filter. When the date arguments that are given
  parse as \<open>YYYY-MM-DD\<close> (any other string makes \<open>strptime\<close> raise \<open>ValueError\<close>),
  the result is the input list filtered, in its order, by: the currency, when one is
  given, equals the record's currency as a string; the date is not before midnight of
  the min-date, when one is given; the date is not after midnight of the max-date, when
  one is given. An argument is given when it is neither \<open>None\<close> nor the empty string.
  So a record of the max-date day with a time of day other than 00:00:00 is left out.
\<close>

theorem filter_records_stable:
  "(date_bound mn = Inl e \<longrightarrow> filter_records rs cur mn mx = Inl e) \<and>
   (date_bound mn = Inr d_min \<and> date_bound mx = Inl e \<longrightarrow> filter_records rs cur mn mx = Inl e) \<and>
   (date_bound mn = Inr d_min \<and> date_bound mx = Inr d_max \<longrightarrow>
      filter_records rs cur mn mx =
        Inr (filter (\<lambda>r. (truthy cur \<longrightarrow> Some (currency r) = cur) \<and>
                         (case d_min of None \<Rightarrow> True | Some d \<Rightarrow> dt_le d (date r)) \<and>
                         (case d_max of None \<Rightarrow> True | Some d \<Rightarrow> dt_le (date r) d)) rs) \<and>
      (\<forall>out. filter_records rs cur mn mx = Inr out \<longrightarrow> subseq out rs) \<and>
      (d_min = None \<longleftrightarrow> \<not> truthy mn) \<and> (d_max = None \<longleftrightarrow> \<not> truthy mx) \<and>
      (\<forall>d. d_min = Some d \<longrightarrow>
         (\<exists>s. mn = Some s \<and> strptime s ''%Y-%m-%d'' = Inr d) \<and>
         hour d = 0 \<and> minute d = 0 \<and> second d = 0 \<and> microsecond d = 0) \<and>
      (\<forall>d. d_max = Some d \<longrightarrow>
         (\<exists>s. mx = Some s \<and> strptime s ''%Y-%m-%d'' = Inr d) \<and>
         hour d = 0 \<and> minute d = 0 \<and> second d = 0 \<and> microsecond d = 0) \<and>
      (\<forall>d r out. d_max = Some d \<and> filter_records rs cur mn mx = Inr out \<and>
         year (date r) = year d \<and> month (date r) = month d \<and> day (date r) = day d \<and>
         \<not> (hour (date r) = 0 \<and> minute (date r) = 0 \<and> second (date r) = 0 \<and>
            microsecond (date r) = 0) \<longrightarrow> r \<notin> set out))"
proof -
  have bound: "hour d = 0 \<and> minute d = 0 \<and> second d = 0 \<and> microsecond d = 0 \<and>
      (\<exists>s. v = Some s \<and> strptime s ''%Y-%m-%d'' = Inr d)"
    if "date_bound v = Inr (Some d)" for v d
    using that strptime_ymd_midnight by (auto simp: date_bound_cases)
  have excl: "r \<notin> set (filter (\<lambda>r. (truthy cur \<longrightarrow> Some (currency r) = cur) \<and>
                         (case d_min of None \<Rightarrow> True | Some d \<Rightarrow> dt_le d (date r)) \<and>
                         (case d_max of None \<Rightarrow> True | Some d \<Rightarrow> dt_le (date r) d)) rs)"
    if "date_bound mx = Inr d_max" "d_max = Some d"
       "year (date r) = year d" "month (date r) = month d" "day (date r) = day d"
       "\<not> (hour (date r) = 0 \<and> minute (date r) = 0 \<and> second (date r) = 0 \<and>
            microsecond (date r) = 0)" for d r
  proof -
    from that(1,2) bound[of mx d] have "hour d = 0" "minute d = 0" "second d = 0" "microsecond d = 0"
      by auto
    with that(3-6) have "\<not> dt_le (date r) d" by (intro later_same_day) auto
    with that(2) show ?thesis by simp
  qed
  show ?thesis
  proof (intro conjI impI)
    assume "date_bound mn = Inl e"
    then show "filter_records rs cur mn mx = Inl e" by (simp add: filter_records_def)
  next
    assume "date_bound mn = Inr d_min \<and> date_bound mx = Inl e"
    then show "filter_records rs cur mn mx = Inl e" by (simp add: filter_records_def)
  next
    assume a: "date_bound mn = Inr d_min \<and> date_bound mx = Inr d_max"
    then show eq: "filter_records rs cur mn mx =
        Inr (filter (\<lambda>r. (truthy cur \<longrightarrow> Some (currency r) = cur) \<and>
                         (case d_min of None \<Rightarrow> True | Some d \<Rightarrow> dt_le d (date r)) \<and>
                         (case d_max of None \<Rightarrow> True | Some d \<Rightarrow> dt_le (date r) d)) rs)"
      by (simp add: filter_records_def filter_loop_eq)
    show "\<forall>out. filter_records rs cur mn mx = Inr out \<longrightarrow> subseq out rs"
      unfolding eq by auto
    show "(d_min = None) = (\<not> truthy mn)" using a by (auto simp: date_bound_cases(1)[symmetric])
    show "(d_max = None) = (\<not> truthy mx)" using a by (auto simp: date_bound_cases(1)[symmetric])
    show "\<forall>d. d_min = Some d \<longrightarrow>
         (\<exists>s. mn = Some s \<and> strptime s ''%Y-%m-%d'' = Inr d) \<and>
         hour d = 0 \<and> minute d = 0 \<and> second d = 0 \<and> microsecond d = 0"
      using a bound[of mn] by auto
    show "\<forall>d. d_max = Some d \<longrightarrow>
         (\<exists>s. mx = Some s \<and> strptime s ''%Y-%m-%d'' = Inr d) \<and>
         hour d = 0 \<and> minute d = 0 \<and> second d = 0 \<and> microsecond d = 0"
      using a bound[of mx] by auto
    show "\<forall>d r out. d_max = Some d \<and> filter_records rs cur mn mx = Inr out \<and>
         year (date r) = year d \<and> month (date r) = month d \<and> day (date r) = day d \<and>
         \<not> (hour (date r) = 0 \<and> minute (date r) = 0 \<and> second (date r) = 0 \<and>
            microsecond (date r) = 0) \<longrightarrow> r \<notin> set out"
      unfolding eq using a excl by blast
  qed
qed

theorem filter_records_stable_witness:
  "date_bound (Some ''2024-01-04'') = Inr (Some (at_time 2024 1 4 0 0 0)) \<and>
   date_bound (Some ''2024-01-05'') = Inr (Some (at_time 2024 1 5 0 0 0)) \<and>
   filter_records
     [sample_record (at_time 2024 1 5 0 0 0) ''USD'' (Flt 5 0) (Flt 0 0),
      sample_record (at_time 2024 1 5 10 30 0) ''USD'' (Flt 5 0) (Flt 0 0),
      sample_record (at_time 2024 1 4 9 0 0) ''usd'' (Flt 5 0) (Flt 0 0),
      sample_record (at_time 2024 1 3 23 59 59) ''USD'' (Flt 5 0) (Flt 0 0),
      sample_record (at_time 2024 1 4 0 0 0) ''USD'' (Flt 5 0) (Flt 0 0)]
     (Some ''USD'') (Some ''2024-01-04'') (Some ''2024-01-05'') =
   Inr [sample_record (at_time 2024 1 5 0 0 0) ''USD'' (Flt 5 0) (Flt 0 0),
        sample_record (at_time 2024 1 4 0 0 0) ''USD'' (Flt 5 0) (Flt 0 0)] \<and>
   date_bound (Some ''05.01.2024'') = Inl ValueError \<and>
   filter_records [] None (Some ''05.01.2024'') None = Inl ValueError"
proof -
  let ?rs = "[sample_record (at_time 2024 1 5 0 0 0) ''USD'' (Flt 5 0) (Flt 0 0),
      sample_record (at_time 2024 1 5 10 30 0) ''USD'' (Flt 5 0) (Flt 0 0),
      sample_record (at_time 2024 1 4 9 0 0) ''usd'' (Flt 5 0) (Flt 0 0),
      sample_record (at_time 2024 1 3 23 59 59) ''USD'' (Flt 5 0) (Flt 0 0),
      sample_record (at_time 2024 1 4 0 0 0) ''USD'' (Flt 5 0) (Flt 0 0)]"
  have h1: "date_bound (Some ''2024-01-04'') = Inr (Some (at_time 2024 1 4 0 0 0))"
    by code_simp
  have h2: "date_bound (Some ''2024-01-05'') = Inr (Some (at_time 2024 1 5 0 0 0))"
    by code_simp
  have h3: "date_bound (Some ''05.01.2024'') = Inl ValueError"
    by code_simp
  have ev: "filter (\<lambda>r. (truthy (Some ''USD'') \<longrightarrow> Some (currency r) = Some ''USD'') \<and>
                   (case Some (at_time 2024 1 4 0 0 0) of None \<Rightarrow> True | Some d \<Rightarrow> dt_le d (date r)) \<and>
                   (case Some (at_time 2024 1 5 0 0 0) of None \<Rightarrow> True | Some d \<Rightarrow> dt_le (date r) d)) ?rs =
        [sample_record (at_time 2024 1 5 0 0 0) ''USD'' (Flt 5 0) (Flt 0 0),
         sample_record (at_time 2024 1 4 0 0 0) ''USD'' (Flt 5 0) (Flt 0 0)]"
    by code_simp
  from h1 h2 filter_records_stable[of "Some ''2024-01-04''" ValueError ?rs "Some ''USD''"
      "Some ''2024-01-05''" "Some (at_time 2024 1 4 0 0 0)" "Some (at_time 2024 1 5 0 0 0)"]
  have "filter_records ?rs (Some ''USD'') (Some ''2024-01-04'') (Some ''2024-01-05'') =
        Inr (filter (\<lambda>r. (truthy (Some ''USD'') \<longrightarrow> Some (currency r) = Some ''USD'') \<and>
                   (case Some (at_time 2024 1 4 0 0 0) of None \<Rightarrow> True | Some d \<Rightarrow> dt_le d (date r)) \<and>
                   (case Some (at_time 2024 1 5 0 0 0) of None \<Rightarrow> True | Some d \<Rightarrow> dt_le (date r) d)) ?rs)"
    by blast
  moreover from h3 filter_records_stable[of "Some ''05.01.2024''" ValueError "[]" None None]
  have "filter_records [] None (Some ''05.01.2024'') None = Inl ValueError"
    by blast
  ultimately show ?thesis using h1 h2 h3 ev by simp
qed

subsection \<open>Signs of rounded values\<close>

lemma normal_sign: "\<exists>m' e'. normal m e = Flt m' e' \<and> sgn m' = sgn m"
proof (induction m e rule: normal.induct)
  case (1 m e)
  show ?case
  proof (cases "m = 0")
    case True
    then show ?thesis by (subst normal.simps) simp
  next
    case False
    show ?thesis
    proof (cases "even m")
      case True
      from 1[OF False True] obtain m' e' where
        n: "normal (m div 2) (e + 1) = Flt m' e'" and s: "sgn m' = sgn (m div 2)" by blast
      from True False have "sgn (m div 2) = sgn m"
        by (auto simp: sgn_if elim!: evenE)
      with n s False True show ?thesis by (subst normal.simps) simp
    next
      case F: False
      with False show ?thesis by (subst normal.simps) simp
    qed
  qed
qed

lemma normal_finite: "\<exists>m' e'. normal m e = Flt m' e'"
  using normal_sign[of m e] by blast

lemma round_ratio_not_NaN: "round_ratio n d \<noteq> NaN"
proof -
  have n: "normal m e \<noteq> NaN" for m e
    using normal_finite[of m e] by auto
  have L: "Let a f \<noteq> NaN" if "\<And>x. f x \<noteq> NaN" for a :: int and f
    using that by simp
  have I: "(if b then x else y) \<noteq> NaN" if "x \<noteq> NaN" "y \<noteq> NaN" for b and x y :: pyfloat
    using that by simp
  show ?thesis
    unfolding round_ratio_def by (intro I L n; simp)
qed

lemma fsub_finite: "fsub (Flt m e) (Flt m' e') \<noteq> NaN"
  using round_ratio_not_NaN by (simp add: fsub_def round_scaled_def Let_def)

lemma flt_irrefl: "\<not> flt x x"
  by (cases x) simp_all

lemma feq_refl: "x \<noteq> NaN \<Longrightarrow> feq x x"
  by (simp add: feq_def flt_irrefl)

lemma round_ratio_nonneg:
  assumes "0 \<le> n" "0 < d"
  shows "nonneg (round_ratio n d)"
proof (cases "n = 0")
  case True
  then show ?thesis by (simp add: round_ratio_def nonneg_def)
next
  case False
  with assms have n: "0 < n" by simp
  have L: "nonneg (Let a f)" if "\<And>x. x = a \<Longrightarrow> nonneg (f x)" for a :: int and f
    using that by simp
  have N: "nonneg (normal m e)" if "0 \<le> m" for m e
  proof -
    from normal_sign[of m e] obtain m' e' where "normal m e = Flt m' e'" "sgn m' = sgn m" by blast
    with that show ?thesis by (auto simp: nonneg_def sgn_if split: if_splits)
  qed
  have fin: "nonneg (if 1024 < bitlen m + ex then (if 0 < n then PosInf else NegInf)
                     else normal (if 0 < n then m else - m) ex)"
    if "m = (if 2 * r < den then f else if den < 2 * r then f + 1 else if even f then f else f + 1)"
      "f = num div den" "num = (if ex < 0 then a * 2 ^ nat (- ex) else a)"
      "den = (if ex < 0 then d else d * 2 ^ nat ex)" "a = \<bar>n\<bar>"
    for m r den f num ex a
  proof -
    from that(4) assms(2) have "0 < den" by simp
    moreover from that(3,5) have "0 \<le> num" by simp
    ultimately have "0 \<le> f" using that(2) by (simp add: pos_imp_zdiv_nonneg_iff)
    with that(1) have "0 \<le> m" by simp
    with n N[of m ex] show ?thesis by (simp add: nonneg_def)
  qed
  show ?thesis
    unfolding round_ratio_def using False
    by (simp only: if_False) (intro L, rule fin)
qed

lemma nonneg_fge: "nonneg x \<Longrightarrow> fge x (fint 0)"
proof -
  have z: "fint 0 = Flt 0 0" by code_simp
  assume "nonneg x"
  then show ?thesis
    unfolding z by (auto simp: nonneg_def fge_def Let_def mult_less_0_iff)
qed

subsection \<open>Record loader\<close>

lemma process_row_Some:
  assumes "process_row row = Inr (Some r)"
  shows "buyin_total r = to_float (row_get row ''BuyIn'')"
    and "prize r = to_float (row_get row ''Result'')"
    and "profit r = fsub (prize r) (buyin_total r)"
    and "parse_date (row_get row ''Date'') = Some (date r)"
    and "placement r = to_int (row_get row ''Placement'')"
    and "field_size r = to_int (row_get row ''FieldSize'')"
    and "rake r = (if row ''Rake'' \<noteq> None then to_float (row_get row ''Rake'') else Flt 0 0)"
    and "stripped_or row ''Currency'' ''UNKNOWN'' = Inr (currency r)"
    and "stripped_or row ''Type'' ''Unknown'' = Inr (t_type r)"
  using assms
  by (auto simp: process_row_def Let_def split: sum.splits option.splits)

lemma process_row_cases:
  "process_row row =
     (case stripped_or row ''Currency'' ''UNKNOWN'' of
        Inl e \<Rightarrow> Inl e
      | Inr c \<Rightarrow>
          (case stripped_or row ''Type'' ''Unknown'' of
             Inl e \<Rightarrow> Inl e
           | Inr t \<Rightarrow>
               (case parse_date (row_get row ''Date'') of
                  None \<Rightarrow> Inr None
                | Some d \<Rightarrow> process_row row)))"
  by (auto simp: process_row_def Let_def split: sum.splits option.splits)

lemma read_rows_provenance:
  "set (fst (read_rows evs acc)) \<subseteq>
     set acc \<union> {r. \<exists>row. Row row \<in> set evs \<and> process_row row = Inr (Some r)}"
proof (induction evs acc rule: read_rows.induct)
  case (1 records)
  then show ?case by simp
next
  case (2 rest records)
  then show ?case by simp
next
  case (3 row rest records)
  show ?case
  proof (cases "process_row row")
    case (Inl e)
    then show ?thesis by simp
  next
    case (Inr opt)
    show ?thesis
    proof (cases opt)
      case None
      with Inr "3.IH"(1) show ?thesis by auto
    next
      case (Some r)
      with Inr "3.IH"(2) show ?thesis by auto
    qed
  qed
qed

lemma Row_in_source_rows:
  "Row row \<in> set evs \<Longrightarrow> row \<in> set (source_rows (Table fns evs))"
  by (force split: row_event.splits)

lemma load_file_provenance:
  "set (load_file src acc) \<subseteq>
     set acc \<union> {r. \<exists>row \<in> set (source_rows src). process_row row = Inr (Some r)}"
proof (cases src)
  case Unreadable
  then show ?thesis by (simp add: load_file_def)
next
  case (Table fns evs)
  show ?thesis
  proof (cases fns)
    case None
    with Table show ?thesis by (simp add: load_file_def)
  next
    case (Some names)
    have "set (fst (read_rows evs acc)) \<subseteq>
        set acc \<union> {r. \<exists>row \<in> set (source_rows src). process_row row = Inr (Some r)}"
      using read_rows_provenance[of evs acc] Row_in_source_rows[of _ evs fns] Table
      by blast
    with Table Some show ?thesis by (auto simp: load_file_def)
  qed
qed

lemma load_files_provenance:
  "set (load_files srcs acc) \<subseteq>
     set acc \<union> {r. \<exists>row \<in> set (concat (map source_rows srcs)). process_row row = Inr (Some r)}"
proof (induction srcs acc rule: load_files.induct)
  case (1 records)
  then show ?case by simp
next
  case (2 src srcs records)
  show ?case
  proof
    fix x assume "x \<in> set (load_files (src # srcs) records)"
    then have "x \<in> set (load_files srcs (load_file src records))" by simp
    with "2.IH" have "x \<in> set (load_file src records) \<or>
        (\<exists>row \<in> set (concat (map source_rows srcs)). process_row row = Inr (Some x))"
      by blast
    then show "x \<in> set records \<union>
        {r. \<exists>row \<in> set (concat (map source_rows (src # srcs))). process_row row = Inr (Some r)}"
    proof
      assume "x \<in> set (load_file src records)"
      with load_file_provenance[of src records]
      have "x \<in> set records \<or> (\<exists>row \<in> set (source_rows src). process_row row = Inr (Some x))"
        by blast
      then show ?thesis by auto
    next
      assume "\<exists>row \<in> set (concat (map source_rows srcs)). process_row row = Inr (Some x)"
      then show ?thesis by auto
    qed
  qed
qed

lemma load_summaries_provenance:
  "r \<in> set (load_summaries files) \<Longrightarrow>
     \<exists>row \<in> set (concat (map source_rows files)). process_row row = Inr (Some r)"
  using load_files_provenance[of files "[]"] by (auto simp: load_summaries_def)

lemma digits_val_nonneg: "\<forall>c\<in>set ds. is_digit c \<Longrightarrow> 0 \<le> digits_val ds"
proof -
  have dv: "0 \<le> digit_val c" if "is_digit c" for c
  proof -
    have "(of_char c :: int) = int (of_char c)" by (simp only: of_nat_of_char)
    with that show ?thesis by (simp add: is_digit_def digit_val_def)
  qed
  have "0 \<le> foldl (\<lambda>acc c. 10 * acc + digit_val c) a ds" if "0 \<le> a" "\<forall>c\<in>set ds. is_digit c" for a
    using that by (induction ds arbitrary: a) (auto simp: dv)
  then show "\<forall>c\<in>set ds. is_digit c \<Longrightarrow> 0 \<le> digits_val ds"
    by (simp add: digits_val_def)
qed

lemma to_float_unsigned:
  assumes "ip \<noteq> []" "\<forall>c\<in>set ip. is_digit c" "\<forall>c\<in>set fp. is_digit c"
    "\<forall>c\<in>set ws1. num_isspace c" "\<forall>c\<in>set ws2. num_isspace c"
    "sep = CHR '','' \<or> sep = CHR ''.''"
  shows "fge (to_float (Some (ws1 @ ip @ ws2))) (fint 0)"
    and "fge (to_float (Some (ws1 @ ip @ sep # fp @ ws2))) (fint 0)"
proof -
  note d = to_float_decimal[OF assms]
  have "0 \<le> digits_val ip" using assms(2) by (rule digits_val_nonneg)
  then show "fge (to_float (Some (ws1 @ ip @ ws2))) (fint 0)"
    unfolding d(1) by (intro nonneg_fge round_ratio_nonneg) simp_all
  have "0 \<le> digits_val (ip @ fp)" using assms(2,3) by (intro digits_val_nonneg) auto
  then show "fge (to_float (Some (ws1 @ ip @ sep # fp @ ws2))) (fint 0)"
    unfolding d(2) by (intro nonneg_fge round_ratio_nonneg) simp_all
qed

text \<open>
  C4 (as amended). Every record of the loader holds as its profit the float difference
  of its own prize and buy-in, which are the coerced Result and BuyIn cells of its row;
  the profit is never read from the input. The comparison
  \<open>profit == prize - buyin_total\<close> is true whenever that difference is not NaN, so
  whenever prize and buy-in are both finite.
\<close>

theorem loader_profit:
  "\<forall>r \<in> set (load_summaries files).
     profit r = fsub (prize r) (buyin_total r) \<and>
     (\<exists>row \<in> set (concat (map source_rows files)).
        prize r = to_float (row_get row ''Result'') \<and>
        buyin_total r = to_float (row_get row ''BuyIn'')) \<and>
     (profit r \<noteq> NaN \<longrightarrow> feq (profit r) (fsub (prize r) (buyin_total r))) \<and>
     (\<forall>m e m' e'. prize r = Flt m e \<and> buyin_total r = Flt m' e' \<longrightarrow>
        feq (profit r) (fsub (prize r) (buyin_total r)))"
proof
  fix r assume "r \<in> set (load_summaries files)"
  then obtain row where row: "row \<in> set (concat (map source_rows files))"
    "process_row row = Inr (Some r)"
    using load_summaries_provenance by blast
  note p = process_row_Some[OF row(2)]
  have fin: "feq (profit r) (fsub (prize r) (buyin_total r))"
    if "prize r = Flt m e" "buyin_total r = Flt m' e'" for m e m' e'
    using that p(3) fsub_finite[of m e m' e'] by (simp add: feq_refl)
  have src: "\<exists>row \<in> set (concat (map source_rows files)).
        prize r = to_float (row_get row ''Result'') \<and>
        buyin_total r = to_float (row_get row ''BuyIn'')"
    using row(1) p(1,2) by blast
  have eq: "profit r \<noteq> NaN \<longrightarrow> feq (profit r) (fsub (prize r) (buyin_total r))"
    using p(3) by (simp add: feq_refl)
  from p(3) src eq fin
  show "profit r = fsub (prize r) (buyin_total r) \<and>
     (\<exists>row \<in> set (concat (map source_rows files)).
        prize r = to_float (row_get row ''Result'') \<and>
        buyin_total r = to_float (row_get row ''BuyIn'')) \<and>
     (profit r \<noteq> NaN \<longrightarrow> feq (profit r) (fsub (prize r) (buyin_total r))) \<and>
     (\<forall>m e m' e'. prize r = Flt m e \<and> buyin_total r = Flt m' e' \<longrightarrow>
        feq (profit r) (fsub (prize r) (buyin_total r)))"
    by blast
qed

lemma sample_load:
  "load_summaries [Table (Some required_fields) [Row (sample_row ''2024-01-05'' ''10'' ''25,5'')]] =
     [sample_record (at_time 2024 1 5 0 0 0) ''UNKNOWN'' (Flt 5 1) (Flt 51 (- 1))]"
  "load_summaries [Table (Some required_fields) [Row (sample_row ''2024-01-05'' ''nan'' ''10'')]] =
     [sample_record (at_time 2024 1 5 0 0 0) ''UNKNOWN'' NaN (Flt 5 1)]"
  "load_summaries [Table (Some required_fields) [Row (sample_row ''2024-01-05'' ''ten'' ''25'')]] =
     [sample_record (at_time 2024 1 5 0 0 0) ''UNKNOWN'' (Flt 0 0) (Flt 25 0)]"
  "load_summaries [Table (Some required_fields) [Row (sample_row ''2024-01-05'' ''-5'' ''0'')]] =
     [sample_record (at_time 2024 1 5 0 0 0) ''UNKNOWN'' (Flt (- 5) 0) (Flt 0 0)]"
  by code_simp+

theorem loader_profit_witness:
  "load_summaries [Table (Some required_fields) [Row (sample_row ''2024-01-05'' ''10'' ''25,5'')]] =
     [sample_record (at_time 2024 1 5 0 0 0) ''UNKNOWN'' (Flt 5 1) (Flt 51 (- 1))] \<and>
   profit (sample_record (at_time 2024 1 5 0 0 0) ''UNKNOWN'' (Flt 5 1) (Flt 51 (- 1))) = Flt 31 (- 1) \<and>
   feq (profit (sample_record (at_time 2024 1 5 0 0 0) ''UNKNOWN'' (Flt 5 1) (Flt 51 (- 1))))
       (fsub (prize (sample_record (at_time 2024 1 5 0 0 0) ''UNKNOWN'' (Flt 5 1) (Flt 51 (- 1))))
             (buyin_total (sample_record (at_time 2024 1 5 0 0 0) ''UNKNOWN'' (Flt 5 1) (Flt 51 (- 1)))))"
proof -
  define F where "F = [Table (Some required_fields) [Row (sample_row ''2024-01-05'' ''10'' ''25,5'')]]"
  define R where "R = sample_record (at_time 2024 1 5 0 0 0) ''UNKNOWN'' (Flt 5 1) (Flt 51 (- 1))"
  have l: "load_summaries F = [R]"
    unfolding F_def R_def by (rule sample_load(1))
  have v: "profit R = Flt 31 (- 1)"
    unfolding R_def by code_simp
  from l have "R \<in> set (load_summaries F)" by simp
  with loader_profit[of F] v have "feq (profit R) (fsub (prize R) (buyin_total R))"
    by auto
  with l v show ?thesis unfolding F_def R_def by blast
qed

text \<open>
  The claim as stated fails for a row whose BuyIn or Result cell reads \<open>nan\<close>, which
  \<open>float\<close> accepts: the profit is NaN, and NaN compares unequal to itself.
\<close>

theorem loader_profit_counterexample:
  "load_summaries [Table (Some required_fields) [Row (sample_row ''2024-01-05'' ''nan'' ''10'')]] =
     [sample_record (at_time 2024 1 5 0 0 0) ''UNKNOWN'' NaN (Flt 5 1)] \<and>
   \<not> feq (profit (sample_record (at_time 2024 1 5 0 0 0) ''UNKNOWN'' NaN (Flt 5 1)))
          (fsub (prize (sample_record (at_time 2024 1 5 0 0 0) ''UNKNOWN'' NaN (Flt 5 1)))
                (buyin_total (sample_record (at_time 2024 1 5 0 0 0) ''UNKNOWN'' NaN (Flt 5 1))))"
proof -
  have "\<not> feq (profit (sample_record (at_time 2024 1 5 0 0 0) ''UNKNOWN'' NaN (Flt 5 1)))
          (fsub (prize (sample_record (at_time 2024 1 5 0 0 0) ''UNKNOWN'' NaN (Flt 5 1)))
                (buyin_total (sample_record (at_time 2024 1 5 0 0 0) ''UNKNOWN'' NaN (Flt 5 1))))"
    by code_simp
  with sample_load(2) show ?thesis by blast
qed

text \<open>
  C6 (as amended). The buy-in of every record is \<open>to_float\<close> of the BuyIn cell of its
  row. That is 0.0 when the cell is missing, empty or not a number for \<open>float\<close>, and it
  is not below 0 when the cell is an unsigned decimal numeral. The loader makes no sign
  check: a numeral with a minus sign gives the negated value.
\<close>

theorem loader_buyin:
  "(\<forall>r \<in> set (load_summaries files).
      \<exists>row \<in> set (concat (map source_rows files)).
        process_row row = Inr (Some r) \<and> buyin_total r = to_float (row_get row ''BuyIn'')) \<and>
   to_float None = Flt 0 0 \<and> to_float (Some []) = Flt 0 0 \<and>
   (isl (py_float (replace_char CHR '','' CHR ''.'' s)) \<longrightarrow> to_float (Some s) = Flt 0 0) \<and>
   fge (Flt 0 0) (fint 0) \<and>
   (ip \<noteq> [] \<and> (\<forall>c\<in>set (ip @ fp). is_digit c) \<and> (\<forall>c\<in>set (ws1 @ ws2). num_isspace c) \<and>
    (sep = CHR '','' \<or> sep = CHR ''.'') \<longrightarrow>
      fge (to_float (Some (ws1 @ ip @ ws2))) (fint 0) \<and>
      fge (to_float (Some (ws1 @ ip @ sep # fp @ ws2))) (fint 0) \<and>
      to_float (Some (ws1 @ CHR ''-'' # ip @ sep # fp @ ws2)) =
        fneg (to_float (Some (ws1 @ ip @ sep # fp @ ws2))))"
proof -
  have a: "\<forall>r \<in> set (load_summaries files).
      \<exists>row \<in> set (concat (map source_rows files)).
        process_row row = Inr (Some r) \<and> buyin_total r = to_float (row_get row ''BuyIn'')"
  proof
    fix r assume "r \<in> set (load_summaries files)"
    then obtain row where row: "row \<in> set (concat (map source_rows files))"
      "process_row row = Inr (Some r)"
      using load_summaries_provenance by blast
    from process_row_Some(1)[OF row(2)] row
    show "\<exists>row \<in> set (concat (map source_rows files)).
        process_row row = Inr (Some r) \<and> buyin_total r = to_float (row_get row ''BuyIn'')"
      by blast
  qed
  have b: "isl (py_float (replace_char CHR '','' CHR ''.'' s)) \<longrightarrow> to_float (Some s) = Flt 0 0"
    by (cases "py_float (replace_char CHR '','' CHR ''.'' s)") (simp_all add: to_float_def)
  have z: "fge (Flt 0 0) (fint 0)" by code_simp
  have c: "ip \<noteq> [] \<and> (\<forall>c\<in>set (ip @ fp). is_digit c) \<and> (\<forall>c\<in>set (ws1 @ ws2). num_isspace c) \<and>
    (sep = CHR '','' \<or> sep = CHR ''.'') \<longrightarrow>
      fge (to_float (Some (ws1 @ ip @ ws2))) (fint 0) \<and>
      fge (to_float (Some (ws1 @ ip @ sep # fp @ ws2))) (fint 0) \<and>
      to_float (Some (ws1 @ CHR ''-'' # ip @ sep # fp @ ws2)) =
        fneg (to_float (Some (ws1 @ ip @ sep # fp @ ws2)))"
    using to_float_unsigned[of ip fp ws1 ws2 sep] to_float_decimal(2,3)[of ip fp ws1 ws2 sep]
    by auto
  from a b z c show ?thesis by (simp add: to_float_def)
qed

theorem loader_buyin_witness:
  "load_summaries [Table (Some required_fields) [Row (sample_row ''2024-01-05'' ''ten'' ''25'')]] =
     [sample_record (at_time 2024 1 5 0 0 0) ''UNKNOWN'' (Flt 0 0) (Flt 25 0)] \<and>
   buyin_total (sample_record (at_time 2024 1 5 0 0 0) ''UNKNOWN'' (Flt 0 0) (Flt 25 0)) =
     to_float (Some ''ten'') \<and>
   to_float (Some ''ten'') = Flt 0 0 \<and>
   fge (to_float (Some ''10,50'')) (fint 0) \<and>
   to_float (Some ''-10,50'') = fneg (to_float (Some ''10,50''))"
proof -
  define F where "F = [Table (Some required_fields) [Row (sample_row ''2024-01-05'' ''ten'' ''25'')]]"
  define R where "R = sample_record (at_time 2024 1 5 0 0 0) ''UNKNOWN'' (Flt 0 0) (Flt 25 0)"
  have l: "load_summaries F = [R]"
    unfolding F_def R_def by (rule sample_load(3))
  have s: "set (concat (map source_rows F)) = {sample_row ''2024-01-05'' ''ten'' ''25''}"
    unfolding F_def by simp
  have g: "row_get (sample_row ''2024-01-05'' ''ten'' ''25'') ''BuyIn'' = Some ''ten''"
    by (simp add: row_get_def sample_row_def)
  have i: "isl (py_float (replace_char CHR '','' CHR ''.'' ''ten''))"
    by code_simp
  have h: "''10'' \<noteq> [] \<and> (\<forall>c\<in>set (''10'' @ ''50''). is_digit c) \<and>
           (\<forall>c\<in>set ([] @ []). num_isspace c) \<and> (CHR '','' = CHR '','' \<or> CHR '','' = CHR ''.'')"
    by (simp add: is_digit_def)
  note t = loader_buyin[where files = F and s = "''ten''" and ip = "''10''" and fp = "''50''"
      and ?ws1.0 = "[]" and ?ws2.0 = "[]" and sep = "CHR '',''"]
  from l have "R \<in> set (load_summaries F)" by simp
  with t s g have 1: "buyin_total R = to_float (Some ''ten'')" by fastforce
  from t i have 2: "to_float (Some ''ten'') = Flt 0 0" by blast
  from t h have 3: "fge (to_float (Some ([] @ ''10'' @ CHR '','' # ''50'' @ []))) (fint 0)"
    and 4: "to_float (Some ([] @ CHR ''-'' # ''10'' @ CHR '','' # ''50'' @ [])) =
            fneg (to_float (Some ([] @ ''10'' @ CHR '','' # ''50'' @ [])))"
    by blast+
  from l 1 2 3 4 show ?thesis unfolding F_def R_def by simp
qed

text \<open>The claim as stated fails for a BuyIn cell that holds a negative number.\<close>

theorem loader_buyin_counterexample:
  "load_summaries [Table (Some required_fields) [Row (sample_row ''2024-01-05'' ''-5'' ''0'')]] =
     [sample_record (at_time 2024 1 5 0 0 0) ''UNKNOWN'' (Flt (- 5) 0) (Flt 0 0)] \<and>
   buyin_total (sample_record (at_time 2024 1 5 0 0 0) ''UNKNOWN'' (Flt (- 5) 0) (Flt 0 0)) = Flt (- 5) 0 \<and>
   flt (Flt (- 5) 0) (fint 0) \<and> \<not> fge (Flt (- 5) 0) (fint 0)"
proof -
  have "buyin_total (sample_record (at_time 2024 1 5 0 0 0) ''UNKNOWN'' (Flt (- 5) 0) (Flt 0 0)) = Flt (- 5) 0 \<and>
   flt (Flt (- 5) 0) (fint 0) \<and> \<not> fge (Flt (- 5) 0) (fint 0)"
    by code_simp
  with sample_load(4) show ?thesis by blast
qed

text \<open>
  C8. A line with fewer cells than the header has \<open>None\<close> in the columns it does not
  reach. When the header has a Currency column, \<open>row.get("Currency", "").strip()\<close> then
  raises \<open>AttributeError\<close>: the exception leaves the loop over the rows, the handler
  around the file takes it, and the rows after it are not read. A file with such a line
  before a good line gives no record, while the good line alone gives its record.
\<close>

theorem loader_short_row_aborts:
  "process_row (sample_row_cur ''2024-01-05'' ''10'' ''0'' None) = Inl AttributeError \<and>
   read_rows [Row (sample_row_cur ''2024-01-05'' ''10'' ''0'' None),
              Row (sample_row_cur ''2024-01-06'' ''10'' ''25'' (Some ''USD''))] [] =
     ([], Some AttributeError) \<and>
   load_summaries [Table (Some (required_fields @ [''Currency'']))
                     [Row (sample_row_cur ''2024-01-05'' ''10'' ''0'' None),
                      Row (sample_row_cur ''2024-01-06'' ''10'' ''25'' (Some ''USD''))]] = [] \<and>
   load_summaries [Table (Some (required_fields @ [''Currency'']))
                     [Row (sample_row_cur ''2024-01-06'' ''10'' ''25'' (Some ''USD''))]] =
     [sample_record (at_time 2024 1 6 0 0 0) ''USD'' (Flt 5 1) (Flt 25 0)]"
  by code_simp

end
